theory Spec2Isabelle
  imports Main "HOL-Library.Sublist"
begin

section \<open>Errors and effects\<close>

text \<open>
  The experiment driver \<^verbatim>\<open>clustering/active_clustering.py\<close> is embedded function by
  function. Python exceptions are values of \<open>error\<close>. Everything that touches the
  process-wide random source (Python's \<^verbatim>\<open>random\<close>, numpy's generator, and whatever the
  external clustering library keeps) takes the state of the world \<open>'s\<close> and returns it
  updated, next to either an error or a value; a raise leaves the state as it was at the
  raise. Progress printing under \<^verbatim>\<open>verbose\<close> is not modelled, and the unused keyword
  \<^verbatim>\<open>aggregate\<close> of \<^verbatim>\<open>sample_cluster_seeds\<close> is left out. Assertions are enabled, as
  in a plain \<^verbatim>\<open>python\<close> run.
\<close>

datatype error =
    AssertionError
  | ValueError string
  | NotImplementedError
  | LibraryError string

text \<open>\<^verbatim>\<open>str(e)\<close>: a bare \<^verbatim>\<open>assert\<close> and a bare \<^verbatim>\<open>raise NotImplementedError\<close> carry no message.\<close>

fun error_message :: "error \<Rightarrow> string" where
  "error_message AssertionError = []"
| "error_message (ValueError m) = m"
| "error_message NotImplementedError = []"
| "error_message (LibraryError m) = m"

section \<open>Insertion-ordered dictionaries of lists\<close>

text \<open>
  \<^verbatim>\<open>defaultdict(list)\<close>: keys in the order of their first insertion, each with the list of
  the values appended under it. \<open>dd_append d k v\<close> is \<^verbatim>\<open>d[k].append(v)\<close>.
\<close>

type_synonym ('k, 'v) dd = "('k \<times> 'v list) list"

fun dd_append :: "('k, 'v) dd \<Rightarrow> 'k \<Rightarrow> 'v \<Rightarrow> ('k, 'v) dd" where
  "dd_append [] k v = [(k, [v])]"
| "dd_append ((k', vs) # d) k v =
     (if k' = k then (k', vs @ [v]) # d else (k', vs) # dd_append d k v)"

text \<open>\<^verbatim>\<open>d[k]\<close> read without inserting: the empty list for a key never appended to.\<close>

fun dd_get :: "('k, 'v) dd \<Rightarrow> 'k \<Rightarrow> 'v list" where
  "dd_get [] k = []"
| "dd_get ((k', vs) # d) k = (if k' = k then vs else dd_get d k)"

section \<open>The seed sampler\<close>

text \<open>
  \<^verbatim>\<open>random.sample(range(n), k)\<close> belongs to Python's standard library. Its check is written
  out (\<^verbatim>\<open>if not 0 <= k <= n: raise ValueError(...)\<close>); the choice itself is a parameter
  \<open>smp\<close>, a function of the random state, the population size and the sample size.
\<close>

type_synonym 's sampler = "'s \<Rightarrow> nat \<Rightarrow> nat \<Rightarrow> nat list \<times> 's"

definition random_sample :: "'s sampler \<Rightarrow> nat \<Rightarrow> int \<Rightarrow> 's \<Rightarrow> (error + nat list) \<times> 's" where
  "random_sample smp n k s =
     (if k < 0 \<or> int n < k
      then (Inl (ValueError ''Sample larger than population or is negative''), s)
      else (case smp s n (nat k) of (xs, s') \<Rightarrow> (Inr xs, s')))"

text \<open>
  What the library promises of the choice: \<open>k\<close> distinct members of \<open>range(n)\<close>.
\<close>

definition sample_contract :: "'s sampler \<Rightarrow> bool" where
  "sample_contract smp \<longleftrightarrow>
     (\<forall>s n k. k \<le> n \<longrightarrow>
        length (fst (smp s n k)) = k \<and> distinct (fst (smp s n k)) \<and>
        set (fst (smp s n k)) \<subseteq> {..<n})"

text \<open>
  The first loop of \<^verbatim>\<open>sample_cluster_seeds\<close>, over
  \<^verbatim>\<open>enumerate(zip(features, labels))\<close>, filling \<^verbatim>\<open>points_by_cluster\<close> and
  \<^verbatim>\<open>original_index_by_cluster\<close>.
\<close>

definition group_points ::
  "'f list \<Rightarrow> int list \<Rightarrow> (int, 'f) dd \<times> (int, nat) dd" where
  "group_points features labels =
     foldl (\<lambda>(points_by_cluster, original_index_by_cluster) (i, (f, l)).
              (dd_append points_by_cluster l f, dd_append original_index_by_cluster l i))
           ([], []) (enumerate 0 (zip features labels))"

text \<open>
  The second loop, over \<^verbatim>\<open>points_by_cluster.items()\<close>: one sample per group, then one
  output entry per point of the group. The list \<open>labels\<close> is the accumulator the source
  appends to; \<^verbatim>\<open>sample_cluster_seeds\<close> returns \<^verbatim>\<open>np.array\<close> of its final value.
\<close>

fun sample_groups ::
  "'s sampler \<Rightarrow> int \<Rightarrow> (int, 'f) dd \<Rightarrow> int list \<Rightarrow> 's \<Rightarrow> (error + int list) \<times> 's" where
  "sample_groups smp k [] labels s = (Inr labels, s)"
| "sample_groups smp k ((label, points) # rest) labels s =
     (case random_sample smp (length points) k s of
        (Inl e, s') \<Rightarrow> (Inl e, s')
      | (Inr sample, s') \<Rightarrow>
          sample_groups smp k rest
            (labels @ map (\<lambda>(i, point). if i \<in> set sample then label else - 1)
                          (enumerate 0 points)) s')"

text \<open>
  \<^verbatim>\<open>np.array\<close> on a list of Python integers. When every entry lies in the signed 64-bit
  range the array is an integer array holding exactly the entries of the list (the empty
  list gives an array with no entry). Otherwise numpy chooses among \<^verbatim>\<open>uint64\<close>,
  \<^verbatim>\<open>float64\<close> and \<^verbatim>\<open>object\<close>, and \<^verbatim>\<open>float64\<close> rounds: \<open>WideArray xs\<close> stands for the
  array numpy builds from \<open>xs\<close> in that case, of which only the number of entries is
  relied on.
\<close>

definition in_int64 :: "int \<Rightarrow> bool" where
  "in_int64 x \<longleftrightarrow> - (2 ^ 63) \<le> x \<and> x < 2 ^ 63"

datatype ndarray = ExactArray "int list" | WideArray "int list"

definition np_array :: "int list \<Rightarrow> ndarray" where
  "np_array xs = (if list_all in_int64 xs then ExactArray xs else WideArray xs)"

fun array_length :: "ndarray \<Rightarrow> nat" where
  "array_length (ExactArray xs) = length xs"
| "array_length (WideArray xs) = length xs"

definition sample_cluster_seeds ::
  "'s sampler \<Rightarrow> 'f list \<Rightarrow> int list \<Rightarrow> int \<Rightarrow> 's \<Rightarrow> (error + ndarray) \<times> 's" where
  "sample_cluster_seeds smp features labels num_seed_points_per_label s =
     (case group_points features labels of
        (points_by_cluster, original_index_by_cluster) \<Rightarrow>
          (case sample_groups smp num_seed_points_per_label points_by_cluster [] s of
             (Inl e, s') \<Rightarrow> (Inl e, s')
           | (Inr labels', s') \<Rightarrow> (Inr (np_array labels'), s')))"

section \<open>The external collaborators\<close>

text \<open>
  The clustering library, the metrics of scikit-learn and \<^verbatim>\<open>set_seed\<close> of \<^verbatim>\<open>utils\<close> are
  not part of the file under study; they are the fields of one record. A fit field stands
  for constructing the estimator with \<^verbatim>\<open>n_clusters\<close> and calling \<^verbatim>\<open>fit\<close>; it may
  fail and may advance the random source. \<^verbatim>\<open>ExampleOracle(labels, max_queries_cnt)\<close> is
  the pair handed to \<open>MinMax_fit\<close>, whose value is the pair
  \<^verbatim>\<open>pairwise_constraints_[0]\<close>, \<^verbatim>\<open>pairwise_constraints_[1]\<close>. \<open>fitted_labels\<close> reads the
  attribute \<^verbatim>\<open>labels_\<close> of a fitted estimator \<open>'c\<close>; metric values have type \<open>'v\<close>.
\<close>

record ('f, 's, 'c, 'v) externals =
  rand_sample :: "'s sampler"
  set_seed :: "nat \<Rightarrow> 's \<Rightarrow> 's"
  KMeans_fit :: "int \<Rightarrow> 'f list \<Rightarrow> 's \<Rightarrow> (error + 'c) \<times> 's"
  MinMax_fit ::
    "int \<Rightarrow> 'f list \<Rightarrow> int list \<times> int option \<Rightarrow> 's
       \<Rightarrow> (error + (nat \<times> nat) list \<times> (nat \<times> nat) list) \<times> 's"
  PCKMeans_fit ::
    "int \<Rightarrow> 'f list \<Rightarrow> (nat \<times> nat) list \<Rightarrow> (nat \<times> nat) list \<Rightarrow> 's \<Rightarrow> (error + 'c) \<times> 's"
  ConstrainedKMeans_fit :: "int \<Rightarrow> 'f list \<Rightarrow> ndarray \<Rightarrow> 's \<Rightarrow> (error + 'c) \<times> 's"
  SeededKMeans_fit :: "int \<Rightarrow> 'f list \<Rightarrow> ndarray \<Rightarrow> 's \<Rightarrow> (error + 'c) \<times> 's"
  fitted_labels :: "'c \<Rightarrow> int list"
  adjusted_rand_score :: "int list \<Rightarrow> int list \<Rightarrow> error + 'v"
  normalized_mutual_info_score :: "int list \<Rightarrow> int list \<Rightarrow> error + 'v"

section \<open>Algorithm dispatch\<close>

text \<open>The list the \<^verbatim>\<open>assert\<close> of \<^verbatim>\<open>cluster\<close> tests membership in.\<close>

definition algorithm_names :: "string list" where
  "algorithm_names = [''KMeans'', ''PCKMeans'', ''ConstrainedKMeans'', ''SeededKMeans'']"

text \<open>
  \<^verbatim>\<open>cluster\<close>, with assertions enabled as in a plain \<^verbatim>\<open>python\<close> run: the \<^verbatim>\<open>assert\<close>
  comes first, then the \<^verbatim>\<open>if\<close>/\<^verbatim>\<open>elif\<close> chain, whose final \<^verbatim>\<open>else\<close> is kept as the
  source has it.
\<close>

definition cluster ::
  "('f, 's, 'c, 'v) externals \<Rightarrow> string \<Rightarrow> 'f list \<Rightarrow> int list \<Rightarrow> int \<Rightarrow> int option \<Rightarrow> 's
     \<Rightarrow> (error + 'c) \<times> 's" where
  "cluster ext semisupervised_algo features labels num_clusters max_feedback_given s =
     (if semisupervised_algo \<notin> set algorithm_names then (Inl AssertionError, s)
      else if semisupervised_algo = ''KMeans'' then
        KMeans_fit ext num_clusters features s
      else if semisupervised_algo = ''PCKMeans'' then
        (case MinMax_fit ext num_clusters features (labels, max_feedback_given) s of
           (Inl e, s1) \<Rightarrow> (Inl e, s1)
         | (Inr pairwise_constraints, s1) \<Rightarrow>
             PCKMeans_fit ext num_clusters features
               (fst pairwise_constraints) (snd pairwise_constraints) s1)
      else if semisupervised_algo = ''ConstrainedKMeans'' then
        (case sample_cluster_seeds (rand_sample ext) features labels 1 s of
           (Inl e, s1) \<Rightarrow> (Inl e, s1)
         | (Inr cluster_seeds, s1) \<Rightarrow>
             ConstrainedKMeans_fit ext num_clusters features cluster_seeds s1)
      else if semisupervised_algo = ''SeededKMeans'' then
        (case sample_cluster_seeds (rand_sample ext) features labels 1 s of
           (Inl e, s1) \<Rightarrow> (Inl e, s1)
         | (Inr cluster_seeds, s1) \<Rightarrow>
             SeededKMeans_fit ext num_clusters features cluster_seeds s1)
      else (Inl (ValueError (''Algorithm '' @ semisupervised_algo @ '' not supported.'')), s))"

section \<open>The comparison harness\<close>

text \<open>
  A metric record is the dictionary \<^verbatim>\<open>{"rand": rand_score, "nmi": nmi}\<close>, in the order of
  the literal; the Results Table is a \<^verbatim>\<open>defaultdict(list)\<close> of them.
\<close>

type_synonym 'v metric_record = "(string \<times> 'v) list"
type_synonym 'v results_table = "(string, 'v metric_record) dd"

text \<open>The inner loop, \<^verbatim>\<open>for semisupervised_algo in algorithms\<close>.\<close>

fun run_algorithms ::
  "('f, 's, 'c, 'v) externals \<Rightarrow> 'f list \<Rightarrow> int list \<Rightarrow> int \<Rightarrow> int option \<Rightarrow> string list
     \<Rightarrow> 'v results_table \<Rightarrow> 's \<Rightarrow> (error + 'v results_table) \<times> 's" where
  "run_algorithms ext features labels num_clusters max_feedback_given [] algo_results s =
     (Inr algo_results, s)"
| "run_algorithms ext features labels num_clusters max_feedback_given
     (semisupervised_algo # algorithms) algo_results s =
     (case cluster ext semisupervised_algo features labels num_clusters max_feedback_given s of
        (Inl e, s1) \<Rightarrow> (Inl e, s1)
      | (Inr clusterer, s1) \<Rightarrow>
          (case adjusted_rand_score ext labels (fitted_labels ext clusterer) of
             Inl e \<Rightarrow> (Inl e, s1)
           | Inr rand_score \<Rightarrow>
               (case normalized_mutual_info_score ext labels (fitted_labels ext clusterer) of
                  Inl e \<Rightarrow> (Inl e, s1)
                | Inr nmi \<Rightarrow>
                    run_algorithms ext features labels num_clusters max_feedback_given algorithms
                      (dd_append algo_results semisupervised_algo
                         [(''rand'', rand_score), (''nmi'', nmi)]) s1)))"

text \<open>The outer loop, \<^verbatim>\<open>for i, seed in enumerate(range(num_seeds))\<close>.\<close>

fun run_seeds ::
  "('f, 's, 'c, 'v) externals \<Rightarrow> 'f list \<Rightarrow> int list \<Rightarrow> int \<Rightarrow> int option \<Rightarrow> string list
     \<Rightarrow> nat list \<Rightarrow> 'v results_table \<Rightarrow> 's \<Rightarrow> (error + 'v results_table) \<times> 's" where
  "run_seeds ext features labels num_clusters max_feedback_given algorithms [] algo_results s =
     (Inr algo_results, s)"
| "run_seeds ext features labels num_clusters max_feedback_given algorithms (seed # seeds)
     algo_results s =
     (case run_algorithms ext features labels num_clusters max_feedback_given algorithms
             algo_results (set_seed ext seed s) of
        (Inl e, s1) \<Rightarrow> (Inl e, s1)
      | (Inr algo_results', s1) \<Rightarrow>
          run_seeds ext features labels num_clusters max_feedback_given algorithms seeds
            algo_results' s1)"

text \<open>\<^verbatim>\<open>range(num_seeds)\<close> is empty for a \<^verbatim>\<open>num_seeds\<close> that is zero or negative.\<close>

definition compare_algorithms ::
  "('f, 's, 'c, 'v) externals \<Rightarrow> 'f list \<Rightarrow> int list \<Rightarrow> int \<Rightarrow> int option \<Rightarrow> string list
     \<Rightarrow> int \<Rightarrow> 's \<Rightarrow> (error + 'v results_table) \<times> 's" where
  "compare_algorithms ext features labels num_clusters max_feedback_given algorithms num_seeds s =
     run_seeds ext features labels num_clusters max_feedback_given algorithms
       [0..<nat num_seeds] [] s"

section \<open>Feature extraction\<close>

text \<open>
  The \<^verbatim>\<open>choices\<close> of the command-line flag \<^verbatim>\<open>--feature_extractor\<close> and the list asserted
  by \<^verbatim>\<open>extract_features\<close>.
\<close>

definition feature_extractor_choices :: "string list" where
  "feature_extractor_choices = [''identity'', ''BERT'', ''TFIDF'']"

definition accepted_feature_extractors :: "string list" where
  "accepted_feature_extractors = [''identity'', ''BERT'', ''TFIDF'']"

text \<open>
  \<^verbatim>\<open>extract_features\<close>; \<open>tfidf\<close> stands for fitting scikit-learn's vectorizer and
  densifying its matrix. A Python function that falls off its last \<^verbatim>\<open>elif\<close> returns
  \<^verbatim>\<open>None\<close>, which is the value \<open>None\<close> here.
\<close>

definition extract_features :: "('d \<Rightarrow> error + 'd) \<Rightarrow> 'd \<Rightarrow> string \<Rightarrow> error + 'd option" where
  "extract_features tfidf dataset feature_extractor =
     (if feature_extractor \<notin> set accepted_feature_extractors then Inl AssertionError
      else if feature_extractor = ''identity'' then Inr (Some dataset)
      else if feature_extractor = ''TFIDF'' then
        (case tfidf dataset of Inl e \<Rightarrow> Inl e | Inr matrix \<Rightarrow> Inr (Some matrix))
      else if feature_extractor = ''BERT'' then Inl NotImplementedError
      else Inr None)"

section \<open>Notions used to state the properties\<close>

text \<open>
  \<^verbatim>\<open>zip\<close> stops at the shorter argument: the labels that are paired with a feature row,
  and so reach the loop, are these. For sequences of equal length they are all the labels.
\<close>

definition paired_labels :: "'f list \<Rightarrow> int list \<Rightarrow> int list" where
  "paired_labels features labels = map snd (zip features labels)"

text \<open>The distinct elements of a list, in the order of their first occurrence.\<close>

definition first_occurrences :: "'a list \<Rightarrow> 'a list" where
  "first_occurrences xs = rev (remdups (rev xs))"

text \<open>
  The order the specification describes: the indices of a label vector regrouped by
  label, the groups in the order of first occurrence of their label, and each group in
  the original order.
\<close>

definition grouped_order :: "int list \<Rightarrow> nat list" where
  "grouped_order ls =
     concat (map (\<lambda>l. filter (\<lambda>i. ls ! i = l) [0..<length ls]) (first_occurrences ls))"

text \<open>Grouping a list of key-value pairs in one step, the closed form of repeated \<open>dd_append\<close>.\<close>

definition grouped :: "('k \<times> 'v) list \<Rightarrow> ('k, 'v) dd" where
  "grouped kvs =
     map (\<lambda>k. (k, map snd (filter (\<lambda>p. fst p = k) kvs))) (first_occurrences (map fst kvs))"

text \<open>The output entries of one group, and the true labels of all groups laid end to end.\<close>

definition seed_block :: "int \<Rightarrow> nat list \<Rightarrow> nat \<Rightarrow> int list" where
  "seed_block label sample n = map (\<lambda>i. if i \<in> set sample then label else - 1) [0..<n]"

definition group_labels :: "(int, 'f) dd \<Rightarrow> int list" where
  "group_labels g = concat (map (\<lambda>(l, pts). replicate (length pts) l) g)"

definition sample_error :: error where
  "sample_error = ValueError ''Sample larger than population or is negative''"

text \<open>
  The labels regrouped as the specification describes: one block per distinct label, the
  blocks in the order of first occurrence. A label vector is already grouped by label
  when it equals this list.
\<close>

definition regrouped :: "int list \<Rightarrow> int list" where
  "regrouped ls = concat (map (\<lambda>l. replicate (count_list ls l) l) (first_occurrences ls))"

text \<open>
  Which call into the external libraries raises, along the run that the harness really
  makes. \<open>fit_raises\<close>: one of the fit calls that \<^verbatim>\<open>cluster\<close> makes for the identifier
  \<open>a\<close>, started in state \<open>s\<close>, raises. \<open>metric_raises\<close>: one of the two metrics raises on
  the labels of the fitted estimator \<open>c\<close>. \<open>algos_raise\<close> follows the inner loop from state
  \<open>s\<close>, \<open>seeds_raise\<close> the outer loop, each through the states the run reaches, and
  \<open>call_raises\<close> is the whole of \<^verbatim>\<open>compare_algorithms\<close>. A raise of the harness itself
  (the \<^verbatim>\<open>assert\<close>, the sampler) is not a raise of a library call.
\<close>

definition fit_raises ::
  "('f, 's, 'c, 'v) externals \<Rightarrow> string \<Rightarrow> 'f list \<Rightarrow> int list \<Rightarrow> int \<Rightarrow> int option \<Rightarrow> 's
     \<Rightarrow> bool" where
  "fit_raises ext a X y nc mfg s \<longleftrightarrow>
     (if a = ''KMeans'' then isl (fst (KMeans_fit ext nc X s))
      else if a = ''PCKMeans'' then
        (case MinMax_fit ext nc X (y, mfg) s of
           (Inl e, s1) \<Rightarrow> True
         | (Inr pw, s1) \<Rightarrow> isl (fst (PCKMeans_fit ext nc X (fst pw) (snd pw) s1)))
      else if a = ''ConstrainedKMeans'' then
        (case sample_cluster_seeds (rand_sample ext) X y 1 s of
           (Inl e, s1) \<Rightarrow> False
         | (Inr z, s1) \<Rightarrow> isl (fst (ConstrainedKMeans_fit ext nc X z s1)))
      else if a = ''SeededKMeans'' then
        (case sample_cluster_seeds (rand_sample ext) X y 1 s of
           (Inl e, s1) \<Rightarrow> False
         | (Inr z, s1) \<Rightarrow> isl (fst (SeededKMeans_fit ext nc X z s1)))
      else False)"

definition metric_raises :: "('f, 's, 'c, 'v) externals \<Rightarrow> int list \<Rightarrow> 'c \<Rightarrow> bool" where
  "metric_raises ext y c \<longleftrightarrow>
     isl (adjusted_rand_score ext y (fitted_labels ext c)) \<or>
     isl (normalized_mutual_info_score ext y (fitted_labels ext c))"

fun algos_raise ::
  "('f, 's, 'c, 'v) externals \<Rightarrow> 'f list \<Rightarrow> int list \<Rightarrow> int \<Rightarrow> int option \<Rightarrow> string list \<Rightarrow> 's
     \<Rightarrow> bool" where
  "algos_raise ext X y nc mfg [] s = False"
| "algos_raise ext X y nc mfg (a # rest) s =
     (fit_raises ext a X y nc mfg s \<or>
      (case cluster ext a X y nc mfg s of
         (Inl e, s1) \<Rightarrow> False
       | (Inr c, s1) \<Rightarrow> metric_raises ext y c \<or> algos_raise ext X y nc mfg rest s1))"

fun seeds_raise ::
  "('f, 's, 'c, 'v) externals \<Rightarrow> 'f list \<Rightarrow> int list \<Rightarrow> int \<Rightarrow> int option \<Rightarrow> string list
     \<Rightarrow> nat list \<Rightarrow> 'v results_table \<Rightarrow> 's \<Rightarrow> bool" where
  "seeds_raise ext X y nc mfg algos [] t s = False"
| "seeds_raise ext X y nc mfg algos (seed # seeds) t s =
     (algos_raise ext X y nc mfg algos (set_seed ext seed s) \<or>
      (case run_algorithms ext X y nc mfg algos t (set_seed ext seed s) of
         (Inl e, s1) \<Rightarrow> False
       | (Inr t1, s1) \<Rightarrow> seeds_raise ext X y nc mfg algos seeds t1 s1))"

definition call_raises ::
  "('f, 's, 'c, 'v) externals \<Rightarrow> 'f list \<Rightarrow> int list \<Rightarrow> int \<Rightarrow> int option \<Rightarrow> string list
     \<Rightarrow> int \<Rightarrow> 's \<Rightarrow> bool" where
  "call_raises ext X y nc mfg algos num_seeds s \<longleftrightarrow>
     seeds_raise ext X y nc mfg algos [0..<nat num_seeds] ([] :: 'v results_table) s"

text \<open>Every record of a list has exactly the keys \<^verbatim>\<open>"rand"\<close> and \<^verbatim>\<open>"nmi"\<close>, in this order.\<close>

definition well_keyed :: "'v metric_record list \<Rightarrow> bool" where
  "well_keyed rs \<longleftrightarrow> list_all (\<lambda>r. map fst r = [''rand'', ''nmi'']) rs"

text \<open>Whether the message of an error contains a given value.\<close>

definition names_value :: "error \<Rightarrow> string \<Rightarrow> bool" where
  "names_value e v \<longleftrightarrow> sublist v (error_message e)"

section \<open>A concrete instance of the collaborators\<close>

text \<open>
  To run the model on concrete inputs: a sampler that takes the first \<open>k\<close> members of
  \<open>range(n)\<close> rotated by a counter, and collaborators over a state made of that counter
  and a log of the fit calls. Every fit here returns as many labels as there are feature
  rows, all equal to the counter; the two metrics are toy integers.
\<close>

definition rotating_sample :: "nat sampler" where
  "rotating_sample r n k = (take k (rotate r [0..<n]), Suc r)"

definition logged_fit :: "string \<Rightarrow> nat list \<Rightarrow> nat \<times> string list \<Rightarrow> (error + int list) \<times> nat \<times> string list" where
  "logged_fit name X s = (Inr (replicate (length X) (int (fst s))), (Suc (fst s), snd s @ [name]))"

definition demo_externals :: "(nat, nat \<times> string list, int list, int) externals" where
  "demo_externals =
     \<lparr> rand_sample = (\<lambda>s n k. (fst (rotating_sample (fst s) n k), (Suc (fst s), snd s))),
       set_seed = (\<lambda>seed s. (seed, snd s)),
       KMeans_fit = (\<lambda>n X s. logged_fit ''KMeans.fit'' X s),
       MinMax_fit = (\<lambda>n X oracle s. (Inr ([], []), (Suc (fst s), snd s @ [''MinMax.fit'']))),
       PCKMeans_fit = (\<lambda>n X ml cl s. logged_fit ''PCKMeans.fit'' X s),
       ConstrainedKMeans_fit = (\<lambda>n X y s. logged_fit ''ConstrainedKMeans.fit'' X s),
       SeededKMeans_fit = (\<lambda>n X y s. logged_fit ''SeededKMeans.fit'' X s),
       fitted_labels = (\<lambda>c. c),
       adjusted_rand_score = (\<lambda>y z. Inr (sum_list z)),
       normalized_mutual_info_score = (\<lambda>y z. Inr (int (length z))) \<rparr>"

section \<open>Grouping by key\<close>

lemma first_occurrences_snoc:
  "first_occurrences (xs @ [x]) = (if x \<in> set xs then first_occurrences xs else first_occurrences xs @ [x])"
  by (simp add: first_occurrences_def)

lemma first_occurrences_Nil [simp]: "first_occurrences [] = []"
  by (simp add: first_occurrences_def)

lemma set_first_occurrences [simp]: "set (first_occurrences xs) = set xs"
  by (simp add: first_occurrences_def)

lemma distinct_first_occurrences [simp]: "distinct (first_occurrences xs)"
  by (simp add: first_occurrences_def)

lemma dd_append_map_absent:
  "k \<notin> set ks \<Longrightarrow> dd_append (map (\<lambda>j. (j, g j)) ks) k v = map (\<lambda>j. (j, g j)) ks @ [(k, [v])]"
  by (induction ks) auto

lemma dd_append_map_present:
  "distinct ks \<Longrightarrow> k \<in> set ks \<Longrightarrow>
   dd_append (map (\<lambda>j. (j, g j)) ks) k v = map (\<lambda>j. (j, if j = k then g j @ [v] else g j)) ks"
  by (induction ks) auto

lemma dd_append_grouped: "dd_append (grouped kvs) k v = grouped (kvs @ [(k, v)])"
proof (cases "k \<in> set (map fst kvs)")
  case True
  then show ?thesis
    unfolding grouped_def
    by (simp add: dd_append_map_present first_occurrences_snoc) 
next
  case False
  then have "filter (\<lambda>p. fst p = k) kvs = []"
    by (auto simp: filter_empty_conv)
  with False show ?thesis
    unfolding grouped_def
    by (auto simp add: dd_append_map_absent first_occurrences_snoc) 
qed

lemma group_points_grouped:
  "foldl (\<lambda>(pbc, oibc) (i, (f, l)). (dd_append pbc l f, dd_append oibc l i)) ([], []) ps
   = (grouped (map (\<lambda>(i, (f, l)). (l, f)) ps), grouped (map (\<lambda>(i, (f, l)). (l, i)) ps))"
proof (induction ps rule: rev_induct)
  case Nil
  show ?case by (simp add: grouped_def)
next
  case (snoc p ps)
  then show ?case by (simp add: dd_append_grouped split: prod.splits)
qed

section \<open>One group of the output\<close>

lemma map_enumerate_index:
  "map (\<lambda>(i, point). h i) (enumerate n points) = map h [n..<n + length points]"
proof (induction points arbitrary: n)
  case Nil
  show ?case by simp
next
  case (Cons p ps)
  have "[n..<n + length (p # ps)] = n # [Suc n..<Suc n + length ps]"
    by (subst upt_rec) simp
  with Cons[of "Suc n"] show ?case by simp
qed

lemma sample_groups_Cons_block:
  "sample_groups smp k ((label, points) # rest) labels s =
     (case random_sample smp (length points) k s of
        (Inl e, s') \<Rightarrow> (Inl e, s')
      | (Inr sample, s') \<Rightarrow>
          sample_groups smp k rest (labels @ seed_block label sample (length points)) s')"
  using map_enumerate_index[of "\<lambda>i. if i \<in> set sample then label else - 1" 0 points for sample]
  by (simp add: seed_block_def split: prod.splits sum.splits)

lemma length_seed_block [simp]: "length (seed_block l xs n) = n"
  by (simp add: seed_block_def)

lemma seed_block_shape:
  "list_all2 (\<lambda>y l'. y = l' \<or> y = - 1) (seed_block l xs n) (replicate n l)"
  by (simp add: seed_block_def list_all2_conv_all_nth)

lemma count_seed_block_other:
  "y \<noteq> - 1 \<Longrightarrow> y \<noteq> l \<Longrightarrow> count_list (seed_block l xs n) y = 0"
  by (auto simp: seed_block_def count_list_0_iff)

lemma count_seed_block_label:
  assumes "l \<noteq> - 1" "distinct xs" "set xs \<subseteq> {..<n}"
  shows "count_list (seed_block l xs n) l = length xs"
proof -
  have "count_list (seed_block l xs n) l = length (filter (\<lambda>i. i \<in> set xs) [0..<n])"
    using assms(1) by (simp add: seed_block_def count_list_eq_length_filter filter_map comp_def)
  also have "\<dots> = card ({i. i \<in> set xs} \<inter> set [0..<n])"
    by (simp add: distinct_length_filter)
  also have "{i. i \<in> set xs} \<inter> set [0..<n] = set xs"
    using assms(3) by auto
  also have "card (set xs) = length xs"
    using assms(2) by (simp add: distinct_card)
  finally show ?thesis .
qed

section \<open>The sampling loop\<close>

lemma random_sample_ok:
  assumes "0 \<le> k" "k \<le> int n"
  shows "\<exists>xs s'. random_sample smp n k s = (Inr xs, s') \<and>
           (sample_contract smp \<longrightarrow> length xs = nat k \<and> distinct xs \<and> set xs \<subseteq> {..<n})"
proof -
  from assms have le: "nat k \<le> n" by simp
  have "sample_contract smp \<longrightarrow> length (fst (smp s n (nat k))) = nat k \<and>
      distinct (fst (smp s n (nat k))) \<and> set (fst (smp s n (nat k))) \<subseteq> {..<n}"
    using le unfolding sample_contract_def by blast
  moreover have "random_sample smp n k s = (Inr (fst (smp s n (nat k))), snd (smp s n (nat k)))"
    using assms by (simp add: random_sample_def split: prod.splits)
  ultimately show ?thesis by blast
qed

lemma random_sample_cases:
  "random_sample smp n k s = (Inl sample_error, s) \<or> (\<exists>xs s'. random_sample smp n k s = (Inr xs, s'))"
  by (simp add: random_sample_def sample_error_def split: prod.splits)

lemma random_sample_fail:
  "int n < k \<Longrightarrow> random_sample smp n k s = (Inl sample_error, s)"
  by (simp add: random_sample_def sample_error_def)

lemma sample_groups_ok:
  assumes "0 \<le> k" "\<forall>(l, pts) \<in> set g. k \<le> int (length pts)"
  shows "\<exists>out s'. sample_groups smp k g acc s = (Inr (acc @ out), s') \<and>
           list_all2 (\<lambda>y l. y = l \<or> y = - 1) out (group_labels g) \<and>
           (sample_contract smp \<longrightarrow> distinct (map fst g) \<longrightarrow>
              (\<forall>y. y \<noteq> - 1 \<longrightarrow> count_list out y = (if y \<in> fst ` set g then nat k else 0)))"
  using assms(2)
proof (induction g arbitrary: acc s)
  case Nil
  show ?case by (simp add: group_labels_def)
next
  case (Cons p g)
  obtain l pts where p: "p = (l, pts)" by (cases p)
  from Cons.prems p have kl: "k \<le> int (length pts)" by simp
  from random_sample_ok[OF assms(1) kl, of smp s]
  obtain xs s1 where xs: "random_sample smp (length pts) k s = (Inr xs, s1)"
    and xs_ok: "sample_contract smp \<Longrightarrow> length xs = nat k \<and> distinct xs \<and> set xs \<subseteq> {..<length pts}"
    by blast
  let ?B = "seed_block l xs (length pts)"
  from Cons.prems have "\<forall>(l, pts) \<in> set g. k \<le> int (length pts)" by simp
  from Cons.IH[OF this, of "acc @ ?B" s1]
  obtain out s' where out: "sample_groups smp k g (acc @ ?B) s1 = (Inr ((acc @ ?B) @ out), s')"
    "list_all2 (\<lambda>y l. y = l \<or> y = - 1) out (group_labels g)"
    "sample_contract smp \<longrightarrow> distinct (map fst g) \<longrightarrow>
       (\<forall>y. y \<noteq> - 1 \<longrightarrow> count_list out y = (if y \<in> fst ` set g then nat k else 0))"
    by blast
  have run: "sample_groups smp k (p # g) acc s = (Inr (acc @ (?B @ out)), s')"
    using xs out(1) by (simp add: p sample_groups_Cons_block del: sample_groups.simps(2))
  have shape: "list_all2 (\<lambda>y l. y = l \<or> y = - 1) (?B @ out) (group_labels (p # g))"
    using out(2) seed_block_shape[of l xs "length pts"]
    by (simp add: p group_labels_def list_all2_appendI)
  have cnt: "count_list (?B @ out) y = (if y \<in> fst ` set (p # g) then nat k else 0)"
    if c: "sample_contract smp" and d: "distinct (map fst (p # g))" and y: "y \<noteq> - 1" for y
  proof -
    from d p have lg: "l \<notin> fst ` set g" and dg: "distinct (map fst g)" by auto
    from out(3) c dg y have co: "count_list out y = (if y \<in> fst ` set g then nat k else 0)"
      by blast
    show ?thesis
    proof (cases "y = l")
      case True
      with y xs_ok[OF c] count_seed_block_label[of l xs "length pts"] co lg show ?thesis
        by (simp add: p)
    next
      case False
      with y count_seed_block_other[of y l xs "length pts"] co show ?thesis
        by (simp add: p)
    qed
  qed
  from run shape cnt show ?case by blast
qed

lemma sample_groups_fail:
  assumes "\<exists>(l, pts) \<in> set g. int (length pts) < k"
  shows "\<exists>s'. sample_groups smp k g acc s = (Inl sample_error, s')"
  using assms
proof (induction g arbitrary: acc s)
  case Nil
  then show ?case by simp
next
  case (Cons p g)
  obtain l pts where p: "p = (l, pts)" by (cases p)
  show ?case
  proof (cases "int (length pts) < k")
    case True
    then show ?thesis
      by (simp add: p sample_groups_Cons_block random_sample_fail del: sample_groups.simps(2))
  next
    case False
    with Cons.prems p have rest: "\<exists>(l, pts) \<in> set g. int (length pts) < k" by auto
    from random_sample_cases[of smp "length pts" k s] show ?thesis
    proof
      assume "random_sample smp (length pts) k s = (Inl sample_error, s)"
      then show ?thesis by (simp add: p sample_groups_Cons_block del: sample_groups.simps(2))
    next
      assume "\<exists>xs s'. random_sample smp (length pts) k s = (Inr xs, s')"
      then obtain xs s1 where "random_sample smp (length pts) k s = (Inr xs, s1)" by blast
      with Cons.IH[OF rest, of "acc @ seed_block l xs (length pts)" s1] show ?thesis
        by (simp add: p sample_groups_Cons_block del: sample_groups.simps(2))
    qed
  qed
qed

lemma sample_groups_sizes_only:
  "map (\<lambda>(l, pts). (l, length pts)) g1 = map (\<lambda>(l, pts). (l, length pts)) g2 \<Longrightarrow>
   sample_groups smp k g1 acc s = sample_groups smp k g2 acc s"
proof (induction g1 arbitrary: g2 acc s)
  case Nil
  then show ?case by simp
next
  case (Cons p g1)
  then obtain q g2' where g2: "g2 = q # g2'" by (cases g2) auto
  obtain l pts where p: "p = (l, pts)" by (cases p)
  obtain l' pts' where q: "q = (l', pts')" by (cases q)
  from Cons.prems g2 p q have eq: "l' = l" "length pts' = length pts"
    and rest: "map (\<lambda>(l, pts). (l, length pts)) g1 = map (\<lambda>(l, pts). (l, length pts)) g2'"
    by auto
  show ?case
    unfolding g2 p q eq sample_groups_Cons_block
    by (simp add: Cons.IH[OF rest] split: prod.splits sum.splits)
qed

section \<open>The groups of a label vector\<close>

lemma paired_labels_take: "paired_labels features labels = take (length features) labels"
  by (simp add: paired_labels_def map_snd_zip_take min_def)

lemma paired_labels_same_length [simp]:
  "length features = length labels \<Longrightarrow> paired_labels features labels = labels"
  by (simp add: paired_labels_def)

lemma length_paired_labels: "length (paired_labels features labels) = min (length features) (length labels)"
  by (simp add: paired_labels_def)

lemma enumerate_conv_map: "enumerate 0 xs = map (\<lambda>i. (i, xs ! i)) [0..<length xs]"
  by (rule nth_equalityI) (simp_all add: nth_enumerate_eq)

lemma group_points_eq:
  "group_points features labels =
     (grouped (map (\<lambda>(i, (f, l)). (l, f)) (enumerate 0 (zip features labels))),
      grouped (map (\<lambda>(i, (f, l)). (l, i)) (enumerate 0 (zip features labels))))"
  unfolding group_points_def by (rule group_points_grouped)

lemma map_snd_enumerate_fun: "map (\<lambda>x. g (snd x)) (enumerate n xs) = map g xs"
  by (induction xs arbitrary: n) simp_all

lemma keys_points:
  "map fst (map (\<lambda>(i, (f, l)). (l, f)) (enumerate 0 (zip features labels))) = paired_labels features labels"
proof -
  have "map fst (map (\<lambda>(i, (f, l)). (l, f)) (enumerate 0 (zip features labels)))
        = map (\<lambda>x. snd (snd x)) (enumerate 0 (zip features labels))"
    by (simp add: split_def comp_def)
  then show ?thesis by (simp only: map_snd_enumerate_fun paired_labels_def)
qed

lemma index_pairs:
  "map (\<lambda>(i, (f, l)). (l, i)) (enumerate 0 (zip features labels))
   = map (\<lambda>i. (paired_labels features labels ! i, i)) [0..<length (paired_labels features labels)]"
  by (simp add: enumerate_conv_map paired_labels_def comp_def)

lemma length_filter_fst:
  "length (filter (\<lambda>p. fst p = k) kvs) = count_list (map fst kvs) k"
  by (induction kvs) auto

lemma group_sizes:
  "map (\<lambda>(l, pts). (l, length pts)) (grouped kvs)
   = map (\<lambda>l. (l, count_list (map fst kvs) l)) (first_occurrences (map fst kvs))"
  by (simp add: grouped_def comp_def length_filter_fst)

lemma group_points_sizes:
  "map (\<lambda>(l, pts). (l, length pts)) (fst (group_points features labels))
   = map (\<lambda>l. (l, count_list (paired_labels features labels) l))
         (first_occurrences (paired_labels features labels))"
  by (simp only: group_points_eq fst_conv group_sizes keys_points)

lemma group_labels_sizes:
  "group_labels g = concat (map (\<lambda>(l, n). replicate n l) (map (\<lambda>(l, pts). (l, length pts)) g))"
  by (simp add: group_labels_def comp_def split_def)

lemma map_const_replicate: "(\<And>x. x \<in> set xs \<Longrightarrow> f x = c) \<Longrightarrow> map f xs = replicate (length xs) c"
  by (induction xs) auto

lemma length_filter_nth: "length (filter (\<lambda>i. xs ! i = l) [0..<length xs]) = count_list xs l"
proof -
  have "count_list xs l = count_list (map (\<lambda>i. xs ! i) [0..<length xs]) l"
    by (simp add: map_nth)
  also have "\<dots> = length (filter (\<lambda>i. l = xs ! i) [0..<length xs])"
    by (simp only: count_list_eq_length_filter filter_map comp_def length_map)
  also have "(\<lambda>i. l = xs ! i) = (\<lambda>i. xs ! i = l)"
    by auto
  finally show ?thesis by simp
qed

lemma group_labels_order:
  "group_labels (fst (group_points features labels))
   = map (\<lambda>i. paired_labels features labels ! i) (grouped_order (paired_labels features labels))"
proof -
  let ?pl = "paired_labels features labels"
  have "map (\<lambda>i. ?pl ! i) (filter (\<lambda>i. ?pl ! i = l) [0..<length ?pl]) = replicate (count_list ?pl l) l" for l
    using map_const_replicate[of "filter (\<lambda>i. ?pl ! i = l) [0..<length ?pl]" "\<lambda>i. ?pl ! i" l]
    by (simp add: length_filter_nth)
  then show ?thesis
    by (simp add: group_labels_sizes group_points_sizes grouped_order_def map_concat comp_def)
qed

lemma original_index_order:
  "concat (map snd (snd (group_points features labels))) = grouped_order (paired_labels features labels)"
proof -
  let ?pl = "paired_labels features labels"
  have "map snd (filter (\<lambda>p. fst p = l) (map (\<lambda>i. (?pl ! i, i)) [0..<length ?pl]))
        = filter (\<lambda>i. ?pl ! i = l) [0..<length ?pl]" for l
    by (simp add: filter_map comp_def)
  moreover have "map fst (map (\<lambda>i. (?pl ! i, i)) [0..<length ?pl]) = ?pl"
    by (simp add: comp_def map_nth)
  ultimately show ?thesis
    by (simp add: group_points_eq index_pairs grouped_def grouped_order_def comp_def)
qed

lemma group_points_keys:
  "map fst (fst (group_points features labels)) = first_occurrences (paired_labels features labels)"
  using arg_cong[OF group_points_sizes[of features labels], of "map fst"]
  by (simp add: comp_def split_def)

lemma group_points_size_bound:
  assumes "\<forall>l \<in> set (paired_labels features labels). k \<le> int (count_list (paired_labels features labels) l)"
  shows "\<forall>(l, pts) \<in> set (fst (group_points features labels)). k \<le> int (length pts)"
proof -
  let ?pl = "paired_labels features labels"
  {
    fix l pts assume "(l, pts) \<in> set (fst (group_points features labels))"
    then have "(l, length pts) \<in> set (map (\<lambda>(l, pts). (l, length pts)) (fst (group_points features labels)))"
      by force
    then have "l \<in> set ?pl \<and> length pts = count_list ?pl l"
      unfolding group_points_sizes by auto
    with assms have "k \<le> int (length pts)" by simp
  }
  then show ?thesis by blast
qed

section \<open>The array returned and the order of its entries\<close>

lemma sample_cluster_seeds_eq:
  "sample_cluster_seeds smp features labels k s =
     (case sample_groups smp k (fst (group_points features labels)) [] s of
        (Inl e, s') \<Rightarrow> (Inl e, s')
      | (Inr out, s') \<Rightarrow> (Inr (np_array out), s'))"
  by (cases "group_points features labels") (simp add: sample_cluster_seeds_def)

lemma array_length_np_array [simp]: "array_length (np_array xs) = length xs"
  by (simp add: np_array_def)

lemma np_array_exact: "(\<And>x. x \<in> set xs \<Longrightarrow> in_int64 x) \<Longrightarrow> np_array xs = ExactArray xs"
  by (simp add: np_array_def list_all_iff)

lemma in_int64_sentinel: "in_int64 (- 1)"
  by (simp add: in_int64_def)

lemma sample_cluster_seeds_ok:
  fixes features :: "'f list"
  assumes "0 \<le> k"
    and "\<forall>l \<in> set (paired_labels features labels).
           k \<le> int (count_list (paired_labels features labels) l)"
  shows "\<exists>out s'. sample_cluster_seeds smp features labels k s = (Inr (np_array out), s') \<and>
           list_all2 (\<lambda>y i. y = paired_labels features labels ! i \<or> y = - 1) out
                     (grouped_order (paired_labels features labels)) \<and>
           (sample_contract smp \<longrightarrow> (\<forall>y. y \<noteq> - 1 \<longrightarrow>
              count_list out y = (if y \<in> set (paired_labels features labels) then nat k else 0)))"
proof -
  let ?pl = "paired_labels features labels"
  let ?g = "fst (group_points features labels)"
  have d: "distinct (map fst ?g)" by (simp add: group_points_keys)
  have keys: "fst ` set ?g = set ?pl"
    using arg_cong[OF group_points_keys[of features labels], of set] by simp
  from sample_groups_ok[OF assms(1) group_points_size_bound[OF assms(2)], of smp "[]" s]
  obtain out s' where out: "sample_groups smp k ?g [] s = (Inr out, s')"
    "list_all2 (\<lambda>y l. y = l \<or> y = - 1) out (group_labels ?g)"
    "sample_contract smp \<longrightarrow>
       (\<forall>y. y \<noteq> - 1 \<longrightarrow> count_list out y = (if y \<in> fst ` set ?g then nat k else 0))"
    using d by auto
  have run: "sample_cluster_seeds smp features labels k s = (Inr (np_array out), s')"
    using out(1) by (simp add: sample_cluster_seeds_eq)
  have shape: "list_all2 (\<lambda>y i. y = ?pl ! i \<or> y = - 1) out (grouped_order ?pl)"
    using out(2) unfolding group_labels_order by (simp add: list_all2_map2)
  from out(3) keys have cnt: "sample_contract smp \<longrightarrow> (\<forall>y. y \<noteq> - 1 \<longrightarrow>
              count_list out y = (if y \<in> set ?pl then nat k else 0))" by simp
  from run shape cnt show ?thesis by blast
qed

lemma length_grouped_order: "length (grouped_order ls) = length ls"
proof -
  have "length (grouped_order ls) = length (map (\<lambda>i. ls ! i) (grouped_order ls))"
    by simp
  also have "\<dots> = length (group_labels (fst (group_points ls ls)))"
    by (simp only: group_labels_order paired_labels_same_length)
  also have "\<dots> = sum_list (map (\<lambda>l. count_list ls l) (first_occurrences ls))"
    using group_points_sizes[of ls ls]
    by (simp add: group_labels_sizes length_concat comp_def split_def)
  also have "\<dots> = length ls"
    using sum_count_set[of ls "set ls"]
    by (simp add: sum_list_distinct_conv_sum_set)
  finally show ?thesis .
qed

lemma rotating_sample_contract: "sample_contract rotating_sample"
  by (auto simp: sample_contract_def rotating_sample_def dest: in_set_takeD)

lemma count_sentinel:
  assumes sub: "set out \<subseteq> insert (- 1) (set pl)"
    and cnt: "\<forall>y. y \<noteq> - 1 \<longrightarrow> count_list out y = (if y \<in> set pl then n else 0)"
  shows "count_list out (- 1 :: int) = length out - n * card (set pl - {- 1})"
proof -
  define A where "A = set pl - {- 1 :: int}"
  have fin: "finite A" and notin: "- 1 \<notin> A" and sub': "set out \<subseteq> insert (- 1) A"
    using sub by (auto simp: A_def)
  have "length out = sum (count_list out) (insert (- 1) A)"
    using sum_count_set[OF sub'] fin by simp
  also have "\<dots> = count_list out (- 1) + sum (count_list out) A"
    using fin notin by (rule sum.insert)
  also have "sum (count_list out) A = sum (\<lambda>y. n) A"
    using cnt by (intro sum.cong) (auto simp: A_def)
  finally show ?thesis by (simp add: A_def)
qed

lemma list_all2_set_sub:
  assumes "list_all2 (\<lambda>y i. y = pl ! i \<or> y = c) out idx" "\<forall>i \<in> set idx. i < length pl"
  shows "set out \<subseteq> insert c (set pl)"
proof
  fix y assume "y \<in> set out"
  then obtain p where p: "p < length out" "out ! p = y" by (auto simp: in_set_conv_nth)
  from assms(1) p have "y = pl ! (idx ! p) \<or> y = c" "p < length idx"
    by (auto simp: list_all2_conv_all_nth)
  with assms(2) show "y \<in> insert c (set pl)" by auto
qed

lemma set_grouped_order: "set (grouped_order ls) = {..<length ls}"
  by (auto simp: grouped_order_def)

lemma distinct_grouped_order: "distinct (grouped_order ls)"
proof -
  have inj: "x = y" if x: "x \<in> set ls"
    and eq: "filter (\<lambda>i. ls ! i = x) [0..<length ls] = filter (\<lambda>i. ls ! i = y) [0..<length ls]"
    for x y
  proof -
    from x obtain i where i: "i < length ls" "ls ! i = x" by (auto simp: in_set_conv_nth)
    then have "i \<in> set (filter (\<lambda>i. ls ! i = x) [0..<length ls])" by simp
    with eq have "i \<in> set (filter (\<lambda>i. ls ! i = y) [0..<length ls])" by simp
    with i show ?thesis by simp
  qed
  show ?thesis
    unfolding grouped_order_def
    by (rule distinct_concat) (auto simp: distinct_map inj_on_def dest: inj)
qed

lemma sample_groups_error_only:
  "sample_groups smp k g acc s = (Inl e, s') \<Longrightarrow> e = sample_error"
proof (induction g arbitrary: acc s)
  case Nil
  then show ?case by simp
next
  case (Cons p g)
  obtain l pts where p: "p = (l, pts)" by (cases p)
  from random_sample_cases[of smp "length pts" k s] show ?case
  proof
    assume "random_sample smp (length pts) k s = (Inl sample_error, s)"
    with Cons.prems show ?thesis
      by (simp add: p sample_groups_Cons_block del: sample_groups.simps(2))
  next
    assume "\<exists>xs s1. random_sample smp (length pts) k s = (Inr xs, s1)"
    then obtain xs s1 where "random_sample smp (length pts) k s = (Inr xs, s1)" by blast
    with Cons.prems Cons.IH[of "acc @ seed_block l xs (length pts)" s1] show ?thesis
      by (simp add: p sample_groups_Cons_block del: sample_groups.simps(2))
  qed
qed

lemma group_points_has_group:
  assumes "l \<in> set (paired_labels features labels)"
  shows "\<exists>pts. (l, pts) \<in> set (fst (group_points features labels)) \<and>
           length pts = count_list (paired_labels features labels) l"
proof -
  let ?pl = "paired_labels features labels"
  let ?g = "fst (group_points features labels)"
  from assms have "(l, count_list ?pl l) \<in> set (map (\<lambda>l. (l, count_list ?pl l)) (first_occurrences ?pl))"
    by simp
  then have "(l, count_list ?pl l) \<in> set (map (\<lambda>(l, pts). (l, length pts)) ?g)"
    by (simp only: group_points_sizes)
  then show ?thesis by auto
qed

lemma paired_labels_features_irrelevant:
  "length features = length features' \<Longrightarrow> paired_labels features labels = paired_labels features' labels"
  by (simp add: paired_labels_take)


lemma sample_cluster_seeds_error_only:
  "sample_cluster_seeds smp features labels k s = (Inl e, s') \<Longrightarrow> e = sample_error"
  by (auto simp: sample_cluster_seeds_eq split: prod.splits sum.splits dest: sample_groups_error_only)

lemma labels_or_sentinel_exact:
  assumes "list_all2 (\<lambda>y i. y = pl ! i \<or> y = - 1) out (grouped_order pl)"
    and "\<forall>l \<in> set pl. in_int64 l"
  shows "np_array out = ExactArray out"
proof (rule np_array_exact)
  fix x assume "x \<in> set out"
  with list_all2_set_sub[OF assms(1)] have "x \<in> insert (- 1) (set pl)"
    by (auto simp: set_grouped_order)
  with assms(2) show "in_int64 x" by (auto simp: in_int64_sentinel)
qed

lemma seed_block_mask:
  "seed_block l xs n =
     map2 (\<lambda>l b. if b then l else - 1) (replicate n l) (map (\<lambda>i. i \<in> set xs) [0..<n])"
  by (rule nth_equalityI) (simp_all add: seed_block_def)

lemma revealed_in_block:
  assumes "distinct xs" "set xs \<subseteq> {..<n}"
  shows "length (filter (\<lambda>(l', b). b \<and> l' = y) (zip (replicate n l) (map (\<lambda>i. i \<in> set xs) [0..<n])))
         = (if y = l then length xs else 0)"
proof -
  have z: "zip (replicate n l) (map (\<lambda>i. i \<in> set xs) [0..<n]) = map (\<lambda>i. (l, i \<in> set xs)) [0..<n]"
    by (rule nth_equalityI) simp_all
  show ?thesis
  proof (cases "y = l")
    case True
    have "length (filter (\<lambda>(l', b). b \<and> l' = l) (map (\<lambda>i. (l, i \<in> set xs)) [0..<n]))
          = length (filter (\<lambda>i. i \<in> set xs) [0..<n])"
      by (simp add: filter_map comp_def)
    also have "\<dots> = card ({i. i \<in> set xs} \<inter> set [0..<n])"
      by (simp add: distinct_length_filter)
    also have "{i. i \<in> set xs} \<inter> set [0..<n] = set xs"
      using assms(2) by auto
    also have "card (set xs) = length xs"
      using assms(1) by (simp add: distinct_card)
    finally show ?thesis using True by (simp add: z)
  next
    case False
    then have "filter (\<lambda>(l', b). b \<and> l' = y) (map (\<lambda>i. (l, i \<in> set xs)) [0..<n]) = []"
      by (auto simp: filter_empty_conv)
    with False show ?thesis by (simp add: z)
  qed
qed

lemma sample_groups_mask:
  assumes "0 \<le> k" "\<forall>(l, pts) \<in> set g. k \<le> int (length pts)"
  shows "\<exists>out mask s'. sample_groups smp k g acc s = (Inr (acc @ out), s') \<and>
           length mask = length (group_labels g) \<and>
           out = map2 (\<lambda>l b. if b then l else - 1) (group_labels g) mask \<and>
           (sample_contract smp \<longrightarrow> distinct (map fst g) \<longrightarrow>
              (\<forall>y. length (filter (\<lambda>(l', b). b \<and> l' = y) (zip (group_labels g) mask))
                     = (if y \<in> fst ` set g then nat k else 0)))"
  using assms(2)
proof (induction g arbitrary: acc s)
  case Nil
  show ?case by (simp add: group_labels_def)
next
  case (Cons p g)
  obtain l pts where p: "p = (l, pts)" by (cases p)
  from Cons.prems p have kl: "k \<le> int (length pts)" by simp
  from random_sample_ok[OF assms(1) kl, of smp s]
  obtain xs s1 where xs: "random_sample smp (length pts) k s = (Inr xs, s1)"
    and xs_ok: "sample_contract smp \<Longrightarrow> length xs = nat k \<and> distinct xs \<and> set xs \<subseteq> {..<length pts}"
    by blast
  let ?n = "length pts"
  let ?B = "seed_block l xs ?n"
  let ?mb = "map (\<lambda>i. i \<in> set xs) [0..<?n]"
  from Cons.prems have "\<forall>(l, pts) \<in> set g. k \<le> int (length pts)" by simp
  from Cons.IH[OF this, of "acc @ ?B" s1]
  obtain out mask s' where out: "sample_groups smp k g (acc @ ?B) s1 = (Inr ((acc @ ?B) @ out), s')"
    and len: "length mask = length (group_labels g)"
    and shape: "out = map2 (\<lambda>l b. if b then l else - 1) (group_labels g) mask"
    and cnt: "sample_contract smp \<longrightarrow> distinct (map fst g) \<longrightarrow>
       (\<forall>y. length (filter (\<lambda>(l', b). b \<and> l' = y) (zip (group_labels g) mask))
              = (if y \<in> fst ` set g then nat k else 0))"
    by blast
  have gl: "group_labels (p # g) = replicate ?n l @ group_labels g"
    by (simp add: p group_labels_def)
  have run: "sample_groups smp k (p # g) acc s = (Inr (acc @ (?B @ out)), s')"
    using xs out by (simp add: p sample_groups_Cons_block del: sample_groups.simps(2))
  have len': "length (?mb @ mask) = length (group_labels (p # g))"
    using len by (simp add: gl)
  have shape': "?B @ out = map2 (\<lambda>l b. if b then l else - 1) (group_labels (p # g)) (?mb @ mask)"
    using shape by (simp add: gl seed_block_mask)
  have cnt': "length (filter (\<lambda>(l', b). b \<and> l' = y) (zip (group_labels (p # g)) (?mb @ mask)))
              = (if y \<in> fst ` set (p # g) then nat k else 0)"
    if c: "sample_contract smp" and d: "distinct (map fst (p # g))" for y
  proof -
    from d p have lg: "l \<notin> fst ` set g" and dg: "distinct (map fst g)" by auto
    from cnt c dg have co: "length (filter (\<lambda>(l', b). b \<and> l' = y) (zip (group_labels g) mask))
              = (if y \<in> fst ` set g then nat k else 0)" by blast
    from xs_ok[OF c] have blk: "length (filter (\<lambda>(l', b). b \<and> l' = y) (zip (replicate ?n l) ?mb))
         = (if y = l then nat k else 0)"
      using revealed_in_block[of xs ?n y l] by simp
    have "length (filter (\<lambda>(l', b). b \<and> l' = y) (zip (group_labels (p # g)) (?mb @ mask)))
          = length (filter (\<lambda>(l', b). b \<and> l' = y) (zip (replicate ?n l) ?mb))
            + length (filter (\<lambda>(l', b). b \<and> l' = y) (zip (group_labels g) mask))"
      by (simp add: gl)
    with co blk lg show ?thesis by (auto simp: p)
  qed
  from run len' shape' cnt' show ?case by blast
qed

lemma sample_cluster_seeds_mask:
  fixes features :: "'f list"
  assumes "0 \<le> k"
    and "\<forall>l \<in> set (paired_labels features labels).
           k \<le> int (count_list (paired_labels features labels) l)"
  shows "\<exists>out mask s'. sample_cluster_seeds smp features labels k s = (Inr (np_array out), s') \<and>
           length mask = length (paired_labels features labels) \<and>
           out = map2 (\<lambda>i b. if b then paired_labels features labels ! i else - 1)
                   (grouped_order (paired_labels features labels)) mask \<and>
           (sample_contract smp \<longrightarrow>
              (\<forall>l \<in> set (paired_labels features labels).
                 length (filter (\<lambda>(i, b). b \<and> paired_labels features labels ! i = l)
                           (zip (grouped_order (paired_labels features labels)) mask)) = nat k))"
proof -
  let ?pl = "paired_labels features labels"
  let ?g = "fst (group_points features labels)"
  have d: "distinct (map fst ?g)" by (simp add: group_points_keys)
  have keys: "fst ` set ?g = set ?pl"
    using arg_cong[OF group_points_keys[of features labels], of set] by simp
  have gl: "group_labels ?g = map (\<lambda>i. ?pl ! i) (grouped_order ?pl)"
    by (rule group_labels_order)
  from sample_groups_mask[OF assms(1) group_points_size_bound[OF assms(2)], of smp "[]" s]
  obtain out mask s' where run0: "sample_groups smp k ?g [] s = (Inr out, s')"
    and len0: "length mask = length (group_labels ?g)"
    and shape0: "out = map2 (\<lambda>l b. if b then l else - 1) (group_labels ?g) mask"
    and cnt0: "sample_contract smp \<longrightarrow>
       (\<forall>y. length (filter (\<lambda>(l', b). b \<and> l' = y) (zip (group_labels ?g) mask))
              = (if y \<in> fst ` set ?g then nat k else 0))"
    using d by auto
  have run: "sample_cluster_seeds smp features labels k s = (Inr (np_array out), s')"
    using run0 by (simp add: sample_cluster_seeds_eq)
  have len: "length mask = length ?pl"
    using len0 by (simp add: gl length_grouped_order)
  have z: "zip (map (\<lambda>i. ?pl ! i) (grouped_order ?pl)) mask
           = map (\<lambda>(i, b). (?pl ! i, b)) (zip (grouped_order ?pl) mask)"
    by (simp add: zip_map1 split_def)
  have shape: "out = map2 (\<lambda>i b. if b then ?pl ! i else - 1) (grouped_order ?pl) mask"
    unfolding shape0 gl z by (simp add: split_def comp_def)
  have cnt: "length (filter (\<lambda>(i, b). b \<and> ?pl ! i = l) (zip (grouped_order ?pl) mask)) = nat k"
    if c: "sample_contract smp" and l: "l \<in> set ?pl" for l
  proof -
    from cnt0 c l keys
    have "length (filter (\<lambda>(l', b). b \<and> l' = l) (zip (group_labels ?g) mask)) = nat k"
      by simp
    then show ?thesis
      unfolding gl z by (simp add: filter_map comp_def split_def)
  qed
  from run len shape cnt show ?thesis by blast
qed




lemma filter_nth_append:
  "filter (\<lambda>i. P ((xs @ ys) ! i)) [0..<length xs + length ys]
   = filter (\<lambda>i. P (xs ! i)) [0..<length xs]
     @ map (\<lambda>i. i + length xs) (filter (\<lambda>i. P (ys ! i)) [0..<length ys])"
proof -
  have "[0..<length xs + length ys] = [0..<length xs] @ [length xs..<length xs + length ys]"
    by (rule upt_add_eq_append) simp
  moreover have "map (\<lambda>i. i + length xs) [0..<length ys] = [length xs..<length ys + length xs]"
    by (rule map_add_upt)
  ultimately have split:
    "[0..<length xs + length ys] = [0..<length xs] @ map (\<lambda>i. i + length xs) [0..<length ys]"
    by (simp only: add.commute)
  have one: "filter (\<lambda>i. P ((xs @ ys) ! i)) [0..<length xs] = filter (\<lambda>i. P (xs ! i)) [0..<length xs]"
    by (rule filter_cong) (simp_all add: nth_append)
  have "filter (\<lambda>i. P ((xs @ ys) ! i)) (map (\<lambda>i. i + length xs) [0..<length ys])
        = map (\<lambda>i. i + length xs) (filter (\<lambda>i. P ((xs @ ys) ! (i + length xs))) [0..<length ys])"
    by (simp only: filter_map comp_def)
  also have "(\<lambda>i. P ((xs @ ys) ! (i + length xs))) = (\<lambda>i. P (ys ! i))"
    by (simp add: nth_append)
  finally have two: "filter (\<lambda>i. P ((xs @ ys) ! i)) (map (\<lambda>i. i + length xs) [0..<length ys])
        = map (\<lambda>i. i + length xs) (filter (\<lambda>i. P (ys ! i)) [0..<length ys])" .
  show ?thesis
    by (simp only: split filter_append one two)
qed

lemma blocks_in_order:
  assumes "distinct ks"
  shows "concat (map (\<lambda>l. filter (\<lambda>i. concat (map (\<lambda>l. replicate (c l) l) ks) ! i = l)
                     [0..<length (concat (map (\<lambda>l. replicate (c l) l) ks))]) ks)
         = [0..<length (concat (map (\<lambda>l. replicate (c l) l) ks))]"
  using assms
proof (induction ks)
  case Nil
  show ?case by simp
next
  case (Cons l ks)
  let ?R = "replicate (c l) l"
  let ?B = "concat (map (\<lambda>l. replicate (c l) l) ks)"
  from Cons.prems have l: "l \<notin> set ks" and d: "distinct ks" by auto
  have setB: "set ?B \<subseteq> set ks" by auto
  have len: "length (?R @ ?B) = length ?R + length ?B" by simp
  have first: "filter (\<lambda>i. (?R @ ?B) ! i = l) [0..<length ?R + length ?B] = [0..<c l]"
  proof -
    have "filter (\<lambda>i. ?R ! i = l) [0..<length ?R] = [0..<c l]"
      by (auto simp: filter_id_conv)
    moreover have "filter (\<lambda>i. ?B ! i = l) [0..<length ?B] = []"
      using l setB by (auto simp: filter_empty_conv dest!: nth_mem)
    ultimately show ?thesis
      using filter_nth_append[of "\<lambda>x. x = l" ?R ?B] by simp
  qed
  have other: "filter (\<lambda>i. (?R @ ?B) ! i = l') [0..<length ?R + length ?B]
               = map (\<lambda>i. i + c l) (filter (\<lambda>i. ?B ! i = l') [0..<length ?B])"
    if "l' \<in> set ks" for l'
  proof -
    from that l have "l' \<noteq> l" by auto
    then have "filter (\<lambda>i. ?R ! i = l') [0..<length ?R] = []"
      by (auto simp: filter_empty_conv)
    then show ?thesis
      using filter_nth_append[of "\<lambda>x. x = l'" ?R ?B] by simp
  qed
  have "concat (map (\<lambda>l'. filter (\<lambda>i. (?R @ ?B) ! i = l') [0..<length ?R + length ?B]) ks)
        = concat (map (\<lambda>l'. map (\<lambda>i. i + c l) (filter (\<lambda>i. ?B ! i = l') [0..<length ?B])) ks)"
    using other by (intro arg_cong[of _ _ concat] map_cong) auto
  also have "\<dots> = map (\<lambda>i. i + c l) (concat (map (\<lambda>l'. filter (\<lambda>i. ?B ! i = l') [0..<length ?B]) ks))"
    by (simp add: map_concat comp_def)
  also have "\<dots> = map (\<lambda>i. i + c l) [0..<length ?B]"
    by (simp only: Cons.IH[OF d])
  finally have rest: "concat (map (\<lambda>l'. filter (\<lambda>i. (?R @ ?B) ! i = l') [0..<length ?R + length ?B]) ks)
        = map (\<lambda>i. i + c l) [0..<length ?B]" .
  have "[0..<c l + length ?B] = [0..<c l] @ [c l..<c l + length ?B]"
    by (rule upt_add_eq_append) simp
  moreover have "map (\<lambda>i. i + c l) [0..<length ?B] = [c l..<length ?B + c l]"
    by (rule map_add_upt)
  ultimately have whole: "[0..<c l] @ map (\<lambda>i. i + c l) [0..<length ?B] = [0..<c l + length ?B]"
    by (simp only: add.commute)
  have "concat (map (\<lambda>l'. filter (\<lambda>i. (?R @ ?B) ! i = l') [0..<length ?R + length ?B]) (l # ks))
        = [0..<c l] @ map (\<lambda>i. i + c l) [0..<length ?B]"
    using first rest by simp
  with whole show ?case by simp
qed

lemma regrouped_order: "regrouped ls = map (\<lambda>i. ls ! i) (grouped_order ls)"
  using group_labels_order[of ls ls] group_points_sizes[of ls ls]
  by (simp add: regrouped_def group_labels_sizes comp_def)

lemma original_order_iff: "grouped_order ls = [0..<length ls] \<longleftrightarrow> regrouped ls = ls"
proof
  assume "grouped_order ls = [0..<length ls]"
  then show "regrouped ls = ls" by (simp add: regrouped_order map_nth)
next
  assume r: "regrouped ls = ls"
  have "concat (map (\<lambda>l. filter (\<lambda>i. regrouped ls ! i = l) [0..<length (regrouped ls)])
                  (first_occurrences ls)) = [0..<length (regrouped ls)]"
    unfolding regrouped_def
    by (rule blocks_in_order) simp
  then show "grouped_order ls = [0..<length ls]"
    unfolding r grouped_order_def .
qed

section \<open>Properties of the seed sampler\<close>

text \<open>
  Claim C1, as the code has it. When the labels lie in the signed 64-bit range, every
  label that reaches the loop has at least \<open>k\<close> points, \<open>k\<close> is positive and the library's
  sample is \<open>k\<close> distinct positions of the group, \<^verbatim>\<open>sample_cluster_seeds\<close> returns an
  integer array with one entry per paired point in which every label other than the
  sentinel \<open>-1\<close> occurs exactly \<open>k\<close> times, every entry is a label of the input or the
  sentinel, and all the entries that are not one of those \<open>k\<close> per label are the sentinel.
  A label equal to the sentinel itself is not counted: its revealed and its hidden
  entries look the same.
\<close>

theorem seeds_k_per_label:
  fixes features :: "'f list"
  assumes "sample_contract smp" and "0 < k"
    and "\<forall>l \<in> set (paired_labels features labels).
           k \<le> int (count_list (paired_labels features labels) l)"
    and "\<forall>l \<in> set (paired_labels features labels). in_int64 l"
  shows "\<exists>out s'. sample_cluster_seeds smp features labels k s = (Inr (ExactArray out), s') \<and>
           length out = length (paired_labels features labels) \<and>
           (\<forall>l \<in> set (paired_labels features labels). l \<noteq> - 1 \<longrightarrow> count_list out l = nat k) \<and>
           (\<forall>y \<in> set out. y \<in> set (paired_labels features labels) \<or> y = - 1) \<and>
           count_list out (- 1) =
             length out - nat k * card (set (paired_labels features labels) - {- 1})"
proof -
  let ?pl = "paired_labels features labels"
  from assms(2) have k0: "0 \<le> k" by simp
  from sample_cluster_seeds_ok[OF k0 assms(3), of smp s] assms(1)
  obtain out s' where run0: "sample_cluster_seeds smp features labels k s = (Inr (np_array out), s')"
    and shape: "list_all2 (\<lambda>y i. y = ?pl ! i \<or> y = - 1) out (grouped_order ?pl)"
    and cnt: "\<forall>y. y \<noteq> - 1 \<longrightarrow> count_list out y = (if y \<in> set ?pl then nat k else 0)"
    by blast
  from run0 labels_or_sentinel_exact[OF shape assms(4)]
  have run: "sample_cluster_seeds smp features labels k s = (Inr (ExactArray out), s')"
    by simp
  from shape have len: "length out = length ?pl"
    by (simp add: list_all2_lengthD length_grouped_order)
  have sub: "set out \<subseteq> insert (- 1) (set ?pl)"
    using list_all2_set_sub[OF shape] by (simp add: set_grouped_order)
  from run len cnt sub count_sentinel[OF sub cnt] show ?thesis by auto
qed

text \<open>
  The example of the specification: labels \<open>[0,0,0,1,1,1]\<close> and \<open>k = 1\<close> give one \<open>0\<close>,
  one \<open>1\<close> and four \<open>-1\<close>.
\<close>

theorem seeds_k_per_label_witness:
  "sample_contract rotating_sample \<and> (0::int) < 1 \<and>
   list_all (\<lambda>l. 1 \<le> int (count_list (paired_labels [10, 11, 12, 13, 14, 15 :: nat] [0, 0, 0, 1, 1, 1]) l))
            (paired_labels [10, 11, 12, 13, 14, 15 :: nat] [0, 0, 0, 1, 1, 1]) \<and>
   list_all in_int64 (paired_labels [10, 11, 12, 13, 14, 15 :: nat] [0, 0, 0, 1, 1, 1]) \<and>
   sample_cluster_seeds rotating_sample [10, 11, 12, 13, 14, 15 :: nat] [0, 0, 0, 1, 1, 1] 1 0
     = (Inr (ExactArray [0, - 1, - 1, - 1, 1, - 1]), 2) \<and>
   (\<exists>out s'. sample_cluster_seeds rotating_sample [10, 11, 12, 13, 14, 15 :: nat] [0, 0, 0, 1, 1, 1] 1 0
                 = (Inr (ExactArray out), s') \<and>
      length out = length (paired_labels [10, 11, 12, 13, 14, 15 :: nat] [0, 0, 0, 1, 1, 1]) \<and>
      (\<forall>l \<in> set (paired_labels [10, 11, 12, 13, 14, 15 :: nat] [0, 0, 0, 1, 1, 1]).
          l \<noteq> - 1 \<longrightarrow> count_list out l = nat 1) \<and>
      (\<forall>y \<in> set out. y \<in> set (paired_labels [10, 11, 12, 13, 14, 15 :: nat] [0, 0, 0, 1, 1, 1]) \<or> y = - 1) \<and>
      count_list out (- 1) =
        length out - nat 1 * card (set (paired_labels [10, 11, 12, 13, 14, 15 :: nat] [0, 0, 0, 1, 1, 1]) - {- 1}))"
proof -
  have c: "sample_contract rotating_sample" by (rule rotating_sample_contract)
  have k: "(0::int) < 1" by simp
  have pl: "paired_labels [10, 11, 12, 13, 14, 15 :: nat] [0, 0, 0, 1, 1, 1] = [0, 0, 0, 1, 1, 1]"
    by (simp add: paired_labels_def)
  have g: "\<forall>l \<in> set (paired_labels [10, 11, 12, 13, 14, 15 :: nat] [0, 0, 0, 1, 1, 1]).
             1 \<le> int (count_list (paired_labels [10, 11, 12, 13, 14, 15 :: nat] [0, 0, 0, 1, 1, 1]) l)"
    by (simp add: pl)
  have g': "list_all (\<lambda>l. 1 \<le> int (count_list (paired_labels [10, 11, 12, 13, 14, 15 :: nat] [0, 0, 0, 1, 1, 1]) l))
            (paired_labels [10, 11, 12, 13, 14, 15 :: nat] [0, 0, 0, 1, 1, 1])"
    by (simp add: pl)
  have i: "\<forall>l \<in> set (paired_labels [10, 11, 12, 13, 14, 15 :: nat] [0, 0, 0, 1, 1, 1]). in_int64 l"
    by (simp add: pl in_int64_def)
  have i': "list_all in_int64 (paired_labels [10, 11, 12, 13, 14, 15 :: nat] [0, 0, 0, 1, 1, 1])"
    by (simp add: pl in_int64_def)
  have run: "sample_cluster_seeds rotating_sample [10, 11, 12, 13, 14, 15 :: nat] [0, 0, 0, 1, 1, 1] 1 0
             = (Inr (ExactArray [0, - 1, - 1, - 1, 1, - 1]), 2)"
    by code_simp
  note th = seeds_k_per_label[OF c k g i, of 0]
  from c k g' i' run th show ?thesis by (intro conjI)
qed

text \<open>
  On the label vector \<open>[-1, -1]\<close> with \<open>k = 1\<close> the group of the label \<open>-1\<close> has two
  points, and the output holds two entries equal to \<open>-1\<close>, not one. And with the label
  \<open>2^63 + 1\<close> beside a \<open>-1\<close> the list handed to \<^verbatim>\<open>np.array\<close> does not fit an integer
  array, so that the entries of the array returned are not those of the list.
\<close>

theorem seeds_k_per_label_counterexample:
  "sample_cluster_seeds rotating_sample [10, 11 :: nat] [- 1, - 1] 1 0
     = (Inr (ExactArray [- 1, - 1]), 1) \<and>
   1 \<le> int (count_list (paired_labels [10, 11 :: nat] [- 1, - 1]) (- 1)) \<and>
   count_list [- 1, - 1 :: int] (- 1) \<noteq> nat 1 \<and>
   sample_cluster_seeds rotating_sample [10, 11 :: nat] [9223372036854775809, - 1] 1 0
     = (Inr (WideArray [9223372036854775809, - 1]), 2)"
proof -
  have run: "sample_cluster_seeds rotating_sample [10, 11 :: nat] [- 1, - 1] 1 0
     = (Inr (ExactArray [- 1, - 1]), 1)"
    by code_simp
  have g: "1 \<le> int (count_list (paired_labels [10, 11 :: nat] [- 1, - 1]) (- 1))"
    by (simp add: paired_labels_def)
  have n: "count_list [- 1, - 1 :: int] (- 1) \<noteq> nat 1" by simp
  have wide: "sample_cluster_seeds rotating_sample [10, 11 :: nat] [9223372036854775809, - 1] 1 0
     = (Inr (WideArray [9223372036854775809, - 1]), 2)"
    by code_simp
  from run g n wide show ?thesis by (intro conjI)
qed

text \<open>
  Claim C3, as the code has it. For features and labels of equal length, labels in the
  signed 64-bit range, \<open>k\<close> not negative, every label group of at least \<open>k\<close> points and a
  sample of \<open>k\<close> distinct positions, \<^verbatim>\<open>sample_cluster_seeds\<close> returns an integer array as
  long as the input. Position \<open>p\<close> of the output belongs to the original point whose index
  stands at position \<open>p\<close> of \<^verbatim>\<open>original_index_by_cluster\<close> read group after group: the
  entry is that point's label where the point is revealed and the sentinel where it is
  not, and of the points of each label exactly \<open>k\<close> are revealed. That list of indices is
  the order of the specification (groups by first occurrence of their label, the
  original order inside a group), a rearrangement of all the indices. It is the original
  point order exactly when the label vector is already grouped by label, and not
  otherwise.
\<close>

theorem output_in_grouped_order:
  fixes features :: "'f list"
  assumes "sample_contract smp" and "length features = length labels" and "0 \<le> k"
    and "\<forall>l \<in> set labels. k \<le> int (count_list labels l)"
    and "\<forall>l \<in> set labels. in_int64 l"
  shows "\<exists>out mask s'. sample_cluster_seeds smp features labels k s = (Inr (ExactArray out), s') \<and>
           length out = length labels \<and> length mask = length labels \<and>
           out = map2 (\<lambda>i b. if b then labels ! i else - 1) (grouped_order labels) mask \<and>
           (\<forall>l \<in> set labels.
              length (filter (\<lambda>(i, b). b \<and> labels ! i = l) (zip (grouped_order labels) mask))
                = nat k) \<and>
           concat (map snd (snd (group_points features labels))) = grouped_order labels \<and>
           distinct (grouped_order labels) \<and> set (grouped_order labels) = {..<length labels} \<and>
           (grouped_order labels = [0..<length labels] \<longleftrightarrow> regrouped labels = labels)"
proof -
  have pl: "paired_labels features labels = labels"
    using assms(2) by simp
  from assms(4) have g: "\<forall>l \<in> set (paired_labels features labels).
      k \<le> int (count_list (paired_labels features labels) l)" by (simp add: pl)
  from sample_cluster_seeds_mask[OF assms(3) g, of smp s] assms(1)
  obtain out mask s' where run0: "sample_cluster_seeds smp features labels k s = (Inr (np_array out), s')"
    and lenm: "length mask = length labels"
    and shape: "out = map2 (\<lambda>i b. if b then labels ! i else - 1) (grouped_order labels) mask"
    and cnt: "\<forall>l \<in> set labels.
              length (filter (\<lambda>(i, b). b \<and> labels ! i = l) (zip (grouped_order labels) mask)) = nat k"
    unfolding pl by blast
  from shape lenm have len: "length out = length labels"
    by (simp add: length_grouped_order)
  have "in_int64 x" if "x \<in> set out" for x
  proof -
    from that shape obtain i b where "(i, b) \<in> set (zip (grouped_order labels) mask)"
      and x: "x = (if b then labels ! i else - 1)" by auto
    then have "i \<in> set (grouped_order labels)" by (auto dest: set_zip_leftD)
    then have "i < length labels" by (simp add: set_grouped_order)
    with x assms(5) show ?thesis by (auto simp: in_int64_sentinel)
  qed
  then have "np_array out = ExactArray out" by (rule np_array_exact)
  with run0 have run: "sample_cluster_seeds smp features labels k s = (Inr (ExactArray out), s')"
    by simp
  have order: "concat (map snd (snd (group_points features labels))) = grouped_order labels"
    using original_index_order[of features labels] by (simp add: pl)
  from run len lenm shape cnt order distinct_grouped_order[of labels] set_grouped_order[of labels]
    original_order_iff[of labels]
  show ?thesis by blast
qed

text \<open>
  On labels \<open>[0, 1, 0]\<close> the order is \<open>[0, 2, 1]\<close>; the output \<open>[-1, 0, 1]\<close> shows the
  label \<open>0\<close> of the original point 2 at position 1, where the original point has label 1.
\<close>

theorem output_in_grouped_order_witness:
  "sample_contract rotating_sample \<and>
   length [10, 11, 12 :: nat] = length [0, 1, 0 :: int] \<and> (0::int) \<le> 1 \<and>
   list_all (\<lambda>l. 1 \<le> int (count_list [0, 1, 0 :: int] l)) [0, 1, 0] \<and>
   list_all in_int64 [0, 1, 0] \<and>
   sample_cluster_seeds rotating_sample [10, 11, 12 :: nat] [0, 1, 0] 1 1
     = (Inr (ExactArray [- 1, 0, 1]), 3) \<and>
   grouped_order [0, 1, 0] = [0, 2, 1] \<and>
   (\<exists>out mask s'. sample_cluster_seeds rotating_sample [10, 11, 12 :: nat] [0, 1, 0] 1 1
        = (Inr (ExactArray out), s') \<and>
      length out = length [0, 1, 0 :: int] \<and> length mask = length [0, 1, 0 :: int] \<and>
      out = map2 (\<lambda>i b. if b then [0, 1, 0] ! i else - 1) (grouped_order [0, 1, 0]) mask \<and>
      (\<forall>l \<in> set [0, 1, 0].
         length (filter (\<lambda>(i, b). b \<and> [0, 1, 0 :: int] ! i = l) (zip (grouped_order [0, 1, 0]) mask))
           = nat 1) \<and>
      concat (map snd (snd (group_points [10, 11, 12 :: nat] [0, 1, 0]))) = grouped_order [0, 1, 0] \<and>
      distinct (grouped_order [0, 1, 0]) \<and>
      set (grouped_order [0, 1, 0]) = {..<length [0, 1, 0 :: int]} \<and>
      (grouped_order [0, 1, 0] = [0..<length [0, 1, 0 :: int]] \<longleftrightarrow> regrouped [0, 1, 0] = [0, 1, 0]))"
proof -
  have c: "sample_contract rotating_sample" by (rule rotating_sample_contract)
  have len: "length [10, 11, 12 :: nat] = length [0, 1, 0 :: int]" by simp
  have k: "(0::int) \<le> 1" by simp
  have g: "\<forall>l \<in> set [0, 1, 0 :: int]. 1 \<le> int (count_list [0, 1, 0 :: int] l)" by simp
  have g': "list_all (\<lambda>l. 1 \<le> int (count_list [0, 1, 0 :: int] l)) [0, 1, 0]" by simp
  have i: "\<forall>l \<in> set [0, 1, 0 :: int]. in_int64 l" by (simp add: in_int64_def)
  have i': "list_all in_int64 [0, 1, 0]" by (simp add: in_int64_def)
  have run: "sample_cluster_seeds rotating_sample [10, 11, 12 :: nat] [0, 1, 0] 1 1
     = (Inr (ExactArray [- 1, 0, 1]), 3)"
    by code_simp
  have ord: "grouped_order [0, 1, 0] = [0, 2, 1]"
    by (simp add: grouped_order_def first_occurrences_def upt_rec)
  note th = output_in_grouped_order[OF c len k g i, of 1]
  from c len k g' i' run ord th show ?thesis by (intro conjI)
qed

text \<open>
  On labels \<open>[0, 0, 0, 1, 1, 1]\<close>, already grouped, the order is the original point
  order: every position of the output belongs to the point of the same index.
\<close>

theorem output_in_grouped_order_counterexample:
  "grouped_order [0, 0, 0, 1, 1, 1] = [0, 1, 2, 3, 4, 5] \<and>
   concat (map snd (snd (group_points [10, 11, 12, 13, 14, 15 :: nat] [0, 0, 0, 1, 1, 1])))
     = [0, 1, 2, 3, 4, 5] \<and>
   sample_cluster_seeds rotating_sample [10, 11, 12, 13, 14, 15 :: nat] [0, 0, 0, 1, 1, 1] 1 0
     = (Inr (ExactArray [0, - 1, - 1, - 1, 1, - 1]), 2)"
proof -
  have a: "grouped_order [0, 0, 0, 1, 1, 1] = [0, 1, 2, 3, 4, 5]"
    by (simp add: grouped_order_def first_occurrences_def upt_rec)
  have b: "concat (map snd (snd (group_points [10, 11, 12, 13, 14, 15 :: nat] [0, 0, 0, 1, 1, 1])))
     = [0, 1, 2, 3, 4, 5]"
    by code_simp
  have run: "sample_cluster_seeds rotating_sample [10, 11, 12, 13, 14, 15 :: nat] [0, 0, 0, 1, 1, 1] 1 0
     = (Inr (ExactArray [0, - 1, - 1, - 1, 1, - 1]), 2)"
    by code_simp
  from a b run show ?thesis by (intro conjI)
qed

text \<open>
  Claim C6. When some label that reaches the loop has fewer points than
  \<^verbatim>\<open>num_seed_points_per_label\<close>, \<^verbatim>\<open>sample_cluster_seeds\<close> ends in the \<^verbatim>\<open>ValueError\<close> of
  \<^verbatim>\<open>random.sample\<close> and returns no vector, whatever the sampler does on the groups
  before it.
\<close>

theorem small_group_raises:
  fixes features :: "'f list"
  assumes "l \<in> set (paired_labels features labels)"
    and "int (count_list (paired_labels features labels) l) < k"
  shows "\<exists>s'. sample_cluster_seeds smp features labels k s =
           (Inl (ValueError ''Sample larger than population or is negative''), s')"
proof -
  from group_points_has_group[OF assms(1)]
  obtain pts where pts: "(l, pts) \<in> set (fst (group_points features labels))"
    "length pts = count_list (paired_labels features labels) l" by blast
  with assms(2) have "case (l, pts) of (l, pts) \<Rightarrow> int (length pts) < k" by simp
  with pts(1) have "\<exists>(l, pts) \<in> set (fst (group_points features labels)). int (length pts) < k"
    by (rule rev_bexI)
  from sample_groups_fail[OF this, of smp "[]" s] show ?thesis
    by (auto simp: sample_cluster_seeds_eq sample_error_def)
qed

theorem small_group_raises_witness:
  "(1::int) \<in> set (paired_labels [10, 11, 12 :: nat] [0, 0, 1]) \<and>
   int (count_list (paired_labels [10, 11, 12 :: nat] [0, 0, 1]) 1) < 2 \<and>
   (\<exists>s'. sample_cluster_seeds rotating_sample [10, 11, 12 :: nat] [0, 0, 1] 2 0 =
           (Inl (ValueError ''Sample larger than population or is negative''), s')) \<and>
   sample_cluster_seeds rotating_sample [10, 11, 12 :: nat] [0, 0, 1] 2 0 =
           (Inl (ValueError ''Sample larger than population or is negative''), 1)"
proof -
  have a: "(1::int) \<in> set (paired_labels [10, 11, 12 :: nat] [0, 0, 1])"
    by (simp add: paired_labels_def)
  have b: "int (count_list (paired_labels [10, 11, 12 :: nat] [0, 0, 1]) 1) < 2"
    by (simp add: paired_labels_def)
  have run: "sample_cluster_seeds rotating_sample [10, 11, 12 :: nat] [0, 0, 1] 2 0 =
           (Inl (ValueError ''Sample larger than population or is negative''), 1)"
    by code_simp
  note th = small_group_raises[OF a b, of rotating_sample 0]
  from a b th run show ?thesis by (intro conjI)
qed

text \<open>
  Claim C8. Two runs of \<^verbatim>\<open>sample_cluster_seeds\<close> on the same labels, the same
  \<^verbatim>\<open>num_seed_points_per_label\<close> and the same random state, with feature sequences of the
  same length, give the same result and leave the same random state: the feature values
  (here even their type) play no part.
\<close>

theorem feature_values_not_inspected:
  fixes features :: "'f list" and features' :: "'g list"
  assumes "length features = length features'"
  shows "sample_cluster_seeds smp features labels k s = sample_cluster_seeds smp features' labels k s"
proof -
  have "map (\<lambda>(l, pts). (l, length pts)) (fst (group_points features labels))
        = map (\<lambda>(l, pts). (l, length pts)) (fst (group_points features' labels))"
    by (simp only: group_points_sizes paired_labels_features_irrelevant[OF assms])
  from sample_groups_sizes_only[OF this, of smp k "[]" s] show ?thesis
    by (simp only: sample_cluster_seeds_eq)
qed

theorem feature_values_not_inspected_witness:
  "length [10, 11, 12 :: nat] = length [''a'', ''b'', ''c''] \<and>
   sample_cluster_seeds rotating_sample [10, 11, 12 :: nat] [0, 1, 0] 1 1
     = sample_cluster_seeds rotating_sample [''a'', ''b'', ''c''] [0, 1, 0] 1 1 \<and>
   sample_cluster_seeds rotating_sample [''a'', ''b'', ''c''] [0, 1, 0] 1 1
     = (Inr (ExactArray [- 1, 0, 1]), 3)"
proof -
  have len: "length [10, 11, 12 :: nat] = length [''a'', ''b'', ''c'']" by simp
  have run: "sample_cluster_seeds rotating_sample [''a'', ''b'', ''c''] [0, 1, 0] 1 1
     = (Inr (ExactArray [- 1, 0, 1]), 3)"
    by code_simp
  note th = feature_values_not_inspected[OF len, of rotating_sample "[0, 1, 0]" 1 1]
  from len th run show ?thesis by (intro conjI)
qed

text \<open>
  Claim C10, as the code has it. On features and labels of unequal lengths
  \<^verbatim>\<open>sample_cluster_seeds\<close> raises nothing about the lengths: the only error it can end in
  is the \<^verbatim>\<open>ValueError\<close> of \<^verbatim>\<open>random.sample\<close>, and when \<open>k\<close> is not negative and every
  label group of the paired points has at least \<open>k\<close> points it returns an array whose
  length is the smaller of the two lengths. That is not the length of the features when
  the labels are the shorter, and it is the length of the features when the features are
  the shorter.
\<close>

theorem unequal_lengths_truncate:
  fixes features :: "'f list"
  assumes "length features \<noteq> length labels" and "0 \<le> k"
  shows "(\<forall>e s'. sample_cluster_seeds smp features labels k s = (Inl e, s') \<longrightarrow>
            e = ValueError ''Sample larger than population or is negative'') \<and>
         ((\<forall>l \<in> set (paired_labels features labels).
              k \<le> int (count_list (paired_labels features labels) l)) \<longrightarrow>
          (\<exists>out s'. sample_cluster_seeds smp features labels k s = (Inr out, s') \<and>
             array_length out = min (length features) (length labels) \<and>
             (length labels < length features \<longrightarrow> array_length out \<noteq> length features) \<and>
             (length features < length labels \<longrightarrow> array_length out = length features)))"
proof (intro conjI allI impI)
  fix e s'
  assume "sample_cluster_seeds smp features labels k s = (Inl e, s')"
  then have "e = sample_error" by (rule sample_cluster_seeds_error_only)
  then show "e = ValueError ''Sample larger than population or is negative''"
    by (simp only: sample_error_def)
next
  assume g: "\<forall>l \<in> set (paired_labels features labels).
              k \<le> int (count_list (paired_labels features labels) l)"
  note k0 = assms(2)
  from sample_cluster_seeds_ok[OF k0 g, of smp s]
  obtain out s' where run: "sample_cluster_seeds smp features labels k s = (Inr (np_array out), s')"
    and shape: "list_all2 (\<lambda>y i. y = paired_labels features labels ! i \<or> y = - 1) out
                  (grouped_order (paired_labels features labels))"
    by blast
  from shape have "length out = length (grouped_order (paired_labels features labels))"
    by (rule list_all2_lengthD)
  then have "length out = min (length features) (length labels)"
    by (simp only: length_grouped_order length_paired_labels)
  then have len: "array_length (np_array out) = min (length features) (length labels)"
    by simp
  then have a: "length labels < length features \<longrightarrow> array_length (np_array out) \<noteq> length features"
    and b: "length features < length labels \<longrightarrow> array_length (np_array out) = length features"
    by simp_all
  from run len a b
  show "\<exists>out s'. sample_cluster_seeds smp features labels k s = (Inr out, s') \<and>
             array_length out = min (length features) (length labels) \<and>
             (length labels < length features \<longrightarrow> array_length out \<noteq> length features) \<and>
             (length features < length labels \<longrightarrow> array_length out = length features)"
    by blast
qed

theorem unequal_lengths_truncate_witness:
  "length [10, 11, 12, 13, 14 :: nat] \<noteq> length [0, 1, 0 :: int] \<and> (0::int) \<le> 1 \<and>
   list_all (\<lambda>l. 1 \<le> int (count_list (paired_labels [10, 11, 12, 13, 14 :: nat] [0, 1, 0]) l))
     (paired_labels [10, 11, 12, 13, 14 :: nat] [0, 1, 0]) \<and>
   sample_cluster_seeds rotating_sample [10, 11, 12, 13, 14 :: nat] [0, 1, 0] 1 1
     = (Inr (ExactArray [- 1, 0, 1]), 3) \<and>
   (\<exists>out s'. sample_cluster_seeds rotating_sample [10, 11, 12, 13, 14 :: nat] [0, 1, 0] 1 1 = (Inr out, s') \<and>
      array_length out = min (length [10, 11, 12, 13, 14 :: nat]) (length [0, 1, 0 :: int]) \<and>
      array_length out \<noteq> length [10, 11, 12, 13, 14 :: nat])"
proof -
  have len: "length [10, 11, 12, 13, 14 :: nat] \<noteq> length [0, 1, 0 :: int]" by simp
  have lt: "length [0, 1, 0 :: int] < length [10, 11, 12, 13, 14 :: nat]" by simp
  have k: "(0::int) \<le> 1" by simp
  have g: "\<forall>l \<in> set (paired_labels [10, 11, 12, 13, 14 :: nat] [0, 1, 0]).
      1 \<le> int (count_list (paired_labels [10, 11, 12, 13, 14 :: nat] [0, 1, 0]) l)"
    by (simp add: paired_labels_def)
  have g': "list_all (\<lambda>l. 1 \<le> int (count_list (paired_labels [10, 11, 12, 13, 14 :: nat] [0, 1, 0]) l))
     (paired_labels [10, 11, 12, 13, 14 :: nat] [0, 1, 0])"
    by (simp add: paired_labels_def)
  have run: "sample_cluster_seeds rotating_sample [10, 11, 12, 13, 14 :: nat] [0, 1, 0] 1 1
     = (Inr (ExactArray [- 1, 0, 1]), 3)"
    by code_simp
  note th = unequal_lengths_truncate[OF len k, of rotating_sample 1, THEN conjunct2, THEN mp, OF g]
  from th obtain out s' where
    o: "sample_cluster_seeds rotating_sample [10, 11, 12, 13, 14 :: nat] [0, 1, 0] 1 1 = (Inr out, s')"
      "array_length out = min (length [10, 11, 12, 13, 14 :: nat]) (length [0, 1, 0 :: int])"
      "length [0, 1, 0 :: int] < length [10, 11, 12, 13, 14 :: nat] \<longrightarrow>
         array_length out \<noteq> length [10, 11, 12, 13, 14 :: nat]"
    by blast
  from o(3) lt have ne: "array_length out \<noteq> length [10, 11, 12, 13, 14 :: nat]" by (rule mp)
  from o(1,2) ne have ex: "\<exists>out s'. sample_cluster_seeds rotating_sample [10, 11, 12, 13, 14 :: nat] [0, 1, 0] 1 1 = (Inr out, s') \<and>
      array_length out = min (length [10, 11, 12, 13, 14 :: nat]) (length [0, 1, 0 :: int]) \<and>
      array_length out \<noteq> length [10, 11, 12, 13, 14 :: nat]"
    by blast
  from len k g' run ex show ?thesis by (intro conjI)
qed

text \<open>
  With two feature rows and four labels the output has two entries, which is the length
  of the features.
\<close>

theorem unequal_lengths_truncate_counterexample:
  "length [10, 11 :: nat] \<noteq> length [0, 1, 0, 1 :: int] \<and>
   sample_cluster_seeds rotating_sample [10, 11 :: nat] [0, 1, 0, 1] 1 0
     = (Inr (ExactArray [0, 1]), 2) \<and>
   array_length (ExactArray [0, 1]) = length [10, 11 :: nat]"
proof -
  have len: "length [10, 11 :: nat] \<noteq> length [0, 1, 0, 1 :: int]" by simp
  have run: "sample_cluster_seeds rotating_sample [10, 11 :: nat] [0, 1, 0, 1] 1 0
     = (Inr (ExactArray [0, 1]), 2)"
    by code_simp
  have eq: "array_length (ExactArray [0, 1]) = length [10, 11 :: nat]" by simp
  from len run eq show ?thesis by (intro conjI)
qed

section \<open>Dispatch and the two loops of the harness\<close>

lemma cluster_unrecognised:
  "a \<notin> set algorithm_names \<Longrightarrow> cluster ext a X y nc mfg s = (Inl AssertionError, s)"
  by (simp add: cluster_def)

lemma cluster_KMeans: "cluster ext ''KMeans'' X y nc mfg s = KMeans_fit ext nc X s"
  by (simp add: cluster_def algorithm_names_def)

lemma count_list_pos: "l \<in> set xs \<Longrightarrow> 0 < count_list xs l"
  by (induction xs) auto

lemma one_seed_always_possible:
  fixes X :: "'f list"
  shows "\<exists>seeds s'. sample_cluster_seeds smp X y 1 s = (Inr seeds, s')"
proof -
  have "\<forall>l \<in> set (paired_labels X y). 1 \<le> int (count_list (paired_labels X y) l)"
    using count_list_pos[of _ "paired_labels X y"] by (auto simp: Suc_le_eq)
  from sample_cluster_seeds_ok[OF _ this, of smp s] show ?thesis by auto
qed

lemma isl_fst_iff: "isl (fst r) \<longleftrightarrow> (\<exists>e s'. r = (Inl e, s'))"
  by (cases r; cases "fst r") auto

lemma not_isl_fst_iff: "\<not> isl (fst r) \<longleftrightarrow> (\<exists>c s'. r = (Inr c, s'))"
  by (cases r; cases "fst r") auto

lemma fit_raises_iff:
  fixes X :: "'f list"
  assumes "a \<in> set algorithm_names"
  shows "\<not> fit_raises ext a X y nc mfg s \<longleftrightarrow> (\<exists>c s1. cluster ext a X y nc mfg s = (Inr c, s1))"
proof -
  from assms consider "a = ''KMeans''" | "a = ''PCKMeans''" | "a = ''ConstrainedKMeans''"
    | "a = ''SeededKMeans''"
    by (auto simp: algorithm_names_def)
  then show ?thesis
  proof cases
    case 1
    then show ?thesis
      by (simp add: fit_raises_def cluster_KMeans not_isl_fst_iff)
  next
    case 2
    show ?thesis
    proof (cases "MinMax_fit ext nc X (y, mfg) s")
      case (Pair r s1)
      then show ?thesis
        using 2 by (cases r) (simp_all add: fit_raises_def cluster_def algorithm_names_def not_isl_fst_iff)
    qed
  next
    case 3
    from one_seed_always_possible[of "rand_sample ext" X y s]
    obtain z s1 where z: "sample_cluster_seeds (rand_sample ext) X y 1 s = (Inr z, s1)" by blast
    with 3 show ?thesis
      by (simp add: fit_raises_def cluster_def algorithm_names_def not_isl_fst_iff)
  next
    case 4
    from one_seed_always_possible[of "rand_sample ext" X y s]
    obtain z s1 where z: "sample_cluster_seeds (rand_sample ext) X y 1 s = (Inr z, s1)" by blast
    with 4 show ?thesis
      by (simp add: fit_raises_def cluster_def algorithm_names_def not_isl_fst_iff)
  qed
qed

lemma dd_get_append:
  "dd_get (dd_append d k v) k' = (if k' = k then dd_get d k @ [v] else dd_get d k')"
  by (induction d) auto

lemma run_algorithms_append:
  "run_algorithms ext X y nc mfg (xs @ ys) t s =
     (case run_algorithms ext X y nc mfg xs t s of
        (Inl e, s') \<Rightarrow> (Inl e, s')
      | (Inr t', s') \<Rightarrow> run_algorithms ext X y nc mfg ys t' s')"
  by (induction xs arbitrary: t s) (auto split: prod.splits sum.splits)

lemma run_seeds_append:
  "run_seeds ext X y nc mfg algos (xs @ ys) t s =
     (case run_seeds ext X y nc mfg algos xs t s of
        (Inl e, s') \<Rightarrow> (Inl e, s')
      | (Inr t', s') \<Rightarrow> run_seeds ext X y nc mfg algos ys t' s')"
  by (induction xs arbitrary: t s) (auto split: prod.splits sum.splits)

lemma run_algorithms_unrecognised:
  "a \<notin> set algorithm_names \<Longrightarrow>
   run_algorithms ext X y nc mfg (a # rest) t s = (Inl AssertionError, s)"
  by (simp add: cluster_unrecognised)

lemma run_algorithms_raises:
  assumes "a \<in> set algos" "a \<notin> set algorithm_names"
  shows "\<exists>e s'. run_algorithms ext X y nc mfg algos t s = (Inl e, s')"
proof -
  from assms(1) obtain pre rest where "algos = pre @ a # rest"
    by (auto simp: in_set_conv_decomp)
  then show ?thesis
    using run_algorithms_unrecognised[OF assms(2), of ext X y nc mfg rest]
    by (auto simp: run_algorithms_append simp del: run_algorithms.simps split: prod.splits sum.splits)
qed

lemma run_algorithms_step:
  assumes "run_algorithms ext X y nc mfg (a # rest) t s = (Inr t', s')"
  shows "\<exists>c s1 r n. cluster ext a X y nc mfg s = (Inr c, s1) \<and>
           adjusted_rand_score ext y (fitted_labels ext c) = Inr r \<and>
           normalized_mutual_info_score ext y (fitted_labels ext c) = Inr n \<and>
           run_algorithms ext X y nc mfg rest (dd_append t a [(''rand'', r), (''nmi'', n)]) s1
             = (Inr t', s')"
  using assms by (auto split: prod.splits sum.splits)

lemma run_algorithms_shape:
  "run_algorithms ext X y nc mfg algos t s = (Inr t', s') \<Longrightarrow>
   \<exists>new. dd_get t' b = dd_get t b @ new \<and> length new = count_list algos b \<and> well_keyed new"
proof (induction algos arbitrary: t s)
  case Nil
  then show ?case by (simp add: well_keyed_def)
next
  case (Cons a algos)
  from run_algorithms_step[OF Cons.prems]
  obtain c s1 r n where
    rest: "run_algorithms ext X y nc mfg algos (dd_append t a [(''rand'', r), (''nmi'', n)]) s1
             = (Inr t', s')"
    by blast
  let ?t1 = "dd_append t a [(''rand'', r), (''nmi'', n)]"
  from Cons.IH[OF rest]
  obtain new where nw: "dd_get t' b = dd_get ?t1 b @ new"
    "length new = count_list algos b" "well_keyed new" by blast
  show ?case
  proof (cases "b = a")
    case True
    with nw have "dd_get t' b = dd_get t b @ ([(''rand'', r), (''nmi'', n)] # new)"
      "length ([(''rand'', r), (''nmi'', n)] # new) = count_list (a # algos) b"
      "well_keyed ([(''rand'', r), (''nmi'', n)] # new)"
      by (simp_all add: dd_get_append well_keyed_def)
    then show ?thesis by blast
  next
    case False
    with nw have "dd_get t' b = dd_get t b @ new" "length new = count_list (a # algos) b"
      by (simp_all add: dd_get_append)
    with nw(3) show ?thesis by blast
  qed
qed

lemma algos_raise_iff:
  fixes X :: "'f list"
  assumes "set algos \<subseteq> set algorithm_names"
  shows "\<not> algos_raise ext X y nc mfg algos s \<longleftrightarrow>
         (\<exists>t' s'. run_algorithms ext X y nc mfg algos t s = (Inr t', s'))"
  using assms
proof (induction algos arbitrary: t s)
  case Nil
  show ?case by simp
next
  case (Cons a algos)
  then have a: "a \<in> set algorithm_names" and rest: "set algos \<subseteq> set algorithm_names" by auto
  note IH = Cons.IH[OF rest]
  show ?case
  proof (cases "cluster ext a X y nc mfg s")
    case (Pair res s1)
    show ?thesis
    proof (cases res)
      case (Inl e)
      with Pair fit_raises_iff[OF a, of ext X y nc mfg s] have "fit_raises ext a X y nc mfg s"
        by auto
      with Pair Inl show ?thesis by simp
    next
      case (Inr c)
      with Pair fit_raises_iff[OF a, of ext X y nc mfg s] have nf: "\<not> fit_raises ext a X y nc mfg s"
        by auto
      show ?thesis
      proof (cases "adjusted_rand_score ext y (fitted_labels ext c)")
        case (Inl e)
        with Pair Inr nf show ?thesis by (simp add: metric_raises_def)
      next
        case r: (Inr r)
        show ?thesis
        proof (cases "normalized_mutual_info_score ext y (fitted_labels ext c)")
          case (Inl e)
          with Pair Inr nf r show ?thesis by (simp add: metric_raises_def)
        next
          case n: (Inr n)
          from Pair Inr nf r n IH[of s1 "dd_append t a [(''rand'', r), (''nmi'', n)]"]
          show ?thesis by (simp add: metric_raises_def)
        qed
      qed
    qed
  qed
qed

lemma seeds_raise_iff:
  fixes X :: "'f list"
  assumes "set algos \<subseteq> set algorithm_names"
  shows "\<not> seeds_raise ext X y nc mfg algos seeds t s \<longleftrightarrow>
         (\<exists>t' s'. run_seeds ext X y nc mfg algos seeds t s = (Inr t', s'))"
proof (induction seeds arbitrary: t s)
  case Nil
  show ?case by simp
next
  case (Cons seed seeds)
  show ?case
  proof (cases "run_algorithms ext X y nc mfg algos t (set_seed ext seed s)")
    case (Pair res s1)
    show ?thesis
    proof (cases res)
      case (Inl e)
      with Pair algos_raise_iff[OF assms, of ext X y nc mfg "set_seed ext seed s" t]
      have "algos_raise ext X y nc mfg algos (set_seed ext seed s)" by auto
      with Pair Inl show ?thesis by simp
    next
      case (Inr t1)
      with Pair algos_raise_iff[OF assms, of ext X y nc mfg "set_seed ext seed s" t]
      have "\<not> algos_raise ext X y nc mfg algos (set_seed ext seed s)" by auto
      with Pair Inr Cons.IH[of t1 s1] show ?thesis by simp
    qed
  qed
qed

lemma run_seeds_shape:
  "run_seeds ext X y nc mfg algos seeds t s = (Inr t', s') \<Longrightarrow>
   \<exists>new. dd_get t' b = dd_get t b @ new \<and> length new = length seeds * count_list algos b \<and>
         well_keyed new"
proof (induction seeds arbitrary: t s)
  case Nil
  then show ?case by (simp add: well_keyed_def)
next
  case (Cons seed seeds)
  from Cons.prems obtain t1 s1 where
    one: "run_algorithms ext X y nc mfg algos t (set_seed ext seed s) = (Inr t1, s1)"
    and more: "run_seeds ext X y nc mfg algos seeds t1 s1 = (Inr t', s')"
    by (auto split: prod.splits sum.splits)
  from run_algorithms_shape[OF one, of b]
  obtain n1 where n1: "dd_get t1 b = dd_get t b @ n1" "length n1 = count_list algos b"
    "well_keyed n1" by blast
  from Cons.IH[OF more]
  obtain n2 where n2: "dd_get t' b = dd_get t1 b @ n2"
    "length n2 = length seeds * count_list algos b" "well_keyed n2" by blast
  from n1 n2 have "dd_get t' b = dd_get t b @ (n1 @ n2)"
    "length (n1 @ n2) = length (seed # seeds) * count_list algos b" "well_keyed (n1 @ n2)"
    by (simp_all add: well_keyed_def)
  then show ?case by blast
qed

lemma distinct_count_list_one: "distinct xs \<Longrightarrow> x \<in> set xs \<Longrightarrow> count_list xs x = 1"
  by (induction xs) (auto simp: count_list_0_iff)

lemma compare_algorithms_shape:
  assumes "compare_algorithms ext X y nc mfg algorithms N s = (Inr table, s')"
  shows "length (dd_get table a) = nat N * count_list algorithms a \<and> well_keyed (dd_get table a)"
  using run_seeds_shape[OF assms[unfolded compare_algorithms_def], of a] by auto

lemma compare_algorithms_seed_step:
  assumes "compare_algorithms ext X y nc mfg algorithms N s = (Inr table, s')"
    and "0 \<le> M" "M < N"
  shows "\<exists>tM sM tM1 sM1.
           compare_algorithms ext X y nc mfg algorithms M s = (Inr tM, sM) \<and>
           run_algorithms ext X y nc mfg algorithms tM (set_seed ext (nat M) sM) = (Inr tM1, sM1) \<and>
           compare_algorithms ext X y nc mfg algorithms (M + 1) s = (Inr tM1, sM1) \<and>
           (\<forall>a. prefix (dd_get tM1 a) (dd_get table a))"
proof -
  from assms(2,3) have le: "Suc (nat M) \<le> nat N" by simp
  have "[0..<nat N] = [0..<Suc (nat M)] @ [Suc (nat M)..<nat N]"
    using le by (metis le_add_diff_inverse upt_add_eq_append zero_le)
  then have split: "[0..<nat N] = ([0..<nat M] @ [nat M]) @ [Suc (nat M)..<nat N]"
    by simp
  from assms(2) have suc: "nat (M + 1) = Suc (nat M)" by simp
  from assms(1) have whole: "run_seeds ext X y nc mfg algorithms
      (([0..<nat M] @ [nat M]) @ [Suc (nat M)..<nat N]) [] s = (Inr table, s')"
    by (simp only: compare_algorithms_def split)
  then obtain t1 s1 where
    upto: "run_seeds ext X y nc mfg algorithms ([0..<nat M] @ [nat M]) [] s = (Inr t1, s1)"
    and after: "run_seeds ext X y nc mfg algorithms [Suc (nat M)..<nat N] t1 s1 = (Inr table, s')"
    unfolding run_seeds_append[of ext X y nc mfg algorithms "[0..<nat M] @ [nat M]"]
    by (auto split: prod.splits sum.splits)
  from upto obtain tM sM where
    before: "run_seeds ext X y nc mfg algorithms [0..<nat M] [] s = (Inr tM, sM)"
    and this_one: "run_seeds ext X y nc mfg algorithms [nat M] tM sM = (Inr t1, s1)"
    unfolding run_seeds_append[of ext X y nc mfg algorithms "[0..<nat M]"]
    by (auto split: prod.splits sum.splits)
  from this_one have step: "run_algorithms ext X y nc mfg algorithms tM (set_seed ext (nat M) sM)
      = (Inr t1, s1)"
    by (auto split: prod.splits sum.splits)
  have cM: "compare_algorithms ext X y nc mfg algorithms M s = (Inr tM, sM)"
    using before by (simp add: compare_algorithms_def)
  have cM1: "compare_algorithms ext X y nc mfg algorithms (M + 1) s = (Inr t1, s1)"
    using upto by (simp add: compare_algorithms_def suc)
  have "prefix (dd_get t1 a) (dd_get table a)" for a
    using run_seeds_shape[OF after, of a] by (auto simp: prefix_def)
  with cM step cM1 show ?thesis by blast
qed

lemma compare_algorithms_first_seed:
  assumes "0 < N"
  shows "compare_algorithms ext X y nc mfg algorithms N s =
     (case run_algorithms ext X y nc mfg algorithms [] (set_seed ext 0 s) of
        (Inl e, s1) \<Rightarrow> (Inl e, s1)
      | (Inr t, s1) \<Rightarrow> run_seeds ext X y nc mfg algorithms [Suc 0..<nat N] t s1)"
proof -
  from assms have "[0..<nat N] = 0 # [Suc 0..<nat N]"
    by (simp add: upt_rec)
  then show ?thesis by (simp add: compare_algorithms_def)
qed

section \<open>Properties of the harness\<close>

text \<open>
  Claim C2, as the code has it. For a list of identifiers that are all among the four,
  \<^verbatim>\<open>compare_algorithms\<close> returns a Results Table exactly when no fit and no metric call
  that the run makes into the external libraries raises. In that case the list the table
  holds for an identifier has \<open>N\<close> records for each occurrence of the identifier in the
  list of algorithms (so \<open>N\<close> records when the list has no repetition, none when \<open>N\<close> is
  not positive), and every record has the keys \<^verbatim>\<open>"rand"\<close> and \<^verbatim>\<open>"nmi"\<close>. The records
  stand in seed order over \<open>[0, N)\<close>: for each \<open>M\<close> below \<open>N\<close>, the table of the first
  \<open>M + 1\<close> seeds is the table of the first \<open>M\<close> seeds carried through one pass of the
  inner loop after the random source is reseeded with the value \<open>M\<close>, and it is,
  identifier by identifier, an initial segment of the final table.
\<close>

theorem results_table_shape:
  fixes X :: "'f list"
  assumes "set algorithms \<subseteq> set algorithm_names"
  shows "((\<exists>table s'. compare_algorithms ext X y nc mfg algorithms N s = (Inr table, s'))
            \<longleftrightarrow> \<not> call_raises ext X y nc mfg algorithms N s) \<and>
         (\<not> call_raises ext X y nc mfg algorithms N s \<longrightarrow>
          (\<exists>table s'. compare_algorithms ext X y nc mfg algorithms N s = (Inr table, s') \<and>
             (\<forall>a. length (dd_get table a) = nat N * count_list algorithms a \<and>
                  well_keyed (dd_get table a)) \<and>
             (distinct algorithms \<longrightarrow> (\<forall>a \<in> set algorithms. length (dd_get table a) = nat N)) \<and>
             (\<forall>M. 0 \<le> M \<and> M < N \<longrightarrow>
                (\<exists>tM sM tM1 sM1.
                   compare_algorithms ext X y nc mfg algorithms M s = (Inr tM, sM) \<and>
                   run_algorithms ext X y nc mfg algorithms tM (set_seed ext (nat M) sM)
                     = (Inr tM1, sM1) \<and>
                   compare_algorithms ext X y nc mfg algorithms (M + 1) s = (Inr tM1, sM1) \<and>
                   (\<forall>a. prefix (dd_get tM1 a) (dd_get table a))))))"
proof (intro conjI impI)
  show "(\<exists>table s'. compare_algorithms ext X y nc mfg algorithms N s = (Inr table, s'))
            \<longleftrightarrow> \<not> call_raises ext X y nc mfg algorithms N s"
    using seeds_raise_iff[OF assms, of ext X y nc mfg "[0..<nat N]" "[]" s]
    by (simp add: call_raises_def compare_algorithms_def)
next
  assume "\<not> call_raises ext X y nc mfg algorithms N s"
  with seeds_raise_iff[OF assms, of ext X y nc mfg "[0..<nat N]" "[]" s]
  obtain table s' where run: "compare_algorithms ext X y nc mfg algorithms N s = (Inr table, s')"
    by (auto simp: call_raises_def compare_algorithms_def)
  note shape = compare_algorithms_shape[OF run]
  from shape have all: "\<forall>a. length (dd_get table a) = nat N * count_list algorithms a \<and>
                  well_keyed (dd_get table a)"
    by blast
  from shape have one: "distinct algorithms \<longrightarrow> (\<forall>a \<in> set algorithms. length (dd_get table a) = nat N)"
    by (simp add: distinct_count_list_one)
  have order: "\<forall>M. 0 \<le> M \<and> M < N \<longrightarrow>
                (\<exists>tM sM tM1 sM1.
                   compare_algorithms ext X y nc mfg algorithms M s = (Inr tM, sM) \<and>
                   run_algorithms ext X y nc mfg algorithms tM (set_seed ext (nat M) sM)
                     = (Inr tM1, sM1) \<and>
                   compare_algorithms ext X y nc mfg algorithms (M + 1) s = (Inr tM1, sM1) \<and>
                   (\<forall>a. prefix (dd_get tM1 a) (dd_get table a)))"
    using compare_algorithms_seed_step[OF run] by blast
  from run all one order
  show "\<exists>table s'. compare_algorithms ext X y nc mfg algorithms N s = (Inr table, s') \<and>
             (\<forall>a. length (dd_get table a) = nat N * count_list algorithms a \<and>
                  well_keyed (dd_get table a)) \<and>
             (distinct algorithms \<longrightarrow> (\<forall>a \<in> set algorithms. length (dd_get table a) = nat N)) \<and>
             (\<forall>M. 0 \<le> M \<and> M < N \<longrightarrow>
                (\<exists>tM sM tM1 sM1.
                   compare_algorithms ext X y nc mfg algorithms M s = (Inr tM, sM) \<and>
                   run_algorithms ext X y nc mfg algorithms tM (set_seed ext (nat M) sM)
                     = (Inr tM1, sM1) \<and>
                   compare_algorithms ext X y nc mfg algorithms (M + 1) s = (Inr tM1, sM1) \<and>
                   (\<forall>a. prefix (dd_get tM1 a) (dd_get table a))))"
    by blast
qed

text \<open>
  With the concrete collaborators no call raises, and the \<^verbatim>\<open>"rand"\<close> entry of a
  \<^verbatim>\<open>KMeans\<close> record is the seed itself: three seeds give 0, 1, 2 in this order.
\<close>

theorem results_table_shape_witness:
  "set [''KMeans'', ''SeededKMeans''] \<subseteq> set algorithm_names \<and>
   \<not> call_raises demo_externals [0] [0] 1 None [''KMeans'', ''SeededKMeans''] 3 (0, []) \<and>
   compare_algorithms demo_externals [0] [0] 1 None [''KMeans'', ''SeededKMeans''] 3 (0, []) =
     (Inr [(''KMeans'', [[(''rand'', 0), (''nmi'', 1)], [(''rand'', 1), (''nmi'', 1)],
                          [(''rand'', 2), (''nmi'', 1)]]),
           (''SeededKMeans'', [[(''rand'', 2), (''nmi'', 1)], [(''rand'', 3), (''nmi'', 1)],
                          [(''rand'', 4), (''nmi'', 1)]])],
      (5, [''KMeans.fit'', ''SeededKMeans.fit'', ''KMeans.fit'', ''SeededKMeans.fit'',
           ''KMeans.fit'', ''SeededKMeans.fit''])) \<and>
   ((\<exists>table s'. compare_algorithms demo_externals [0] [0] 1 None [''KMeans'', ''SeededKMeans''] 3 (0, [])
        = (Inr table, s'))
      \<longleftrightarrow> \<not> call_raises demo_externals [0] [0] 1 None [''KMeans'', ''SeededKMeans''] 3 (0, [])) \<and>
   (\<exists>table s'. compare_algorithms demo_externals [0] [0] 1 None [''KMeans'', ''SeededKMeans''] 3 (0, [])
        = (Inr table, s') \<and>
      (\<forall>a. length (dd_get table a) = nat 3 * count_list [''KMeans'', ''SeededKMeans''] a \<and>
           well_keyed (dd_get table a)) \<and>
      (distinct [''KMeans'', ''SeededKMeans''] \<longrightarrow>
         (\<forall>a \<in> set [''KMeans'', ''SeededKMeans'']. length (dd_get table a) = nat 3)) \<and>
      (\<forall>M. 0 \<le> M \<and> M < 3 \<longrightarrow>
         (\<exists>tM sM tM1 sM1.
            compare_algorithms demo_externals [0] [0] 1 None [''KMeans'', ''SeededKMeans''] M (0, [])
              = (Inr tM, sM) \<and>
            run_algorithms demo_externals [0] [0] 1 None [''KMeans'', ''SeededKMeans''] tM
                (set_seed demo_externals (nat M) sM) = (Inr tM1, sM1) \<and>
            compare_algorithms demo_externals [0] [0] 1 None [''KMeans'', ''SeededKMeans''] (M + 1) (0, [])
              = (Inr tM1, sM1) \<and>
            (\<forall>a. prefix (dd_get tM1 a) (dd_get table a)))))"
proof -
  have a: "set [''KMeans'', ''SeededKMeans''] \<subseteq> set algorithm_names"
    by (simp add: algorithm_names_def)
  have n: "\<not> call_raises demo_externals [0] [0] 1 None [''KMeans'', ''SeededKMeans''] 3 (0, [])"
    by code_simp
  have run: "compare_algorithms demo_externals [0] [0] 1 None [''KMeans'', ''SeededKMeans''] 3 (0, []) =
     (Inr [(''KMeans'', [[(''rand'', 0), (''nmi'', 1)], [(''rand'', 1), (''nmi'', 1)],
                          [(''rand'', 2), (''nmi'', 1)]]),
           (''SeededKMeans'', [[(''rand'', 2), (''nmi'', 1)], [(''rand'', 3), (''nmi'', 1)],
                          [(''rand'', 4), (''nmi'', 1)]])],
      (5, [''KMeans.fit'', ''SeededKMeans.fit'', ''KMeans.fit'', ''SeededKMeans.fit'',
           ''KMeans.fit'', ''SeededKMeans.fit'']))"
    by code_simp
  note th = results_table_shape[OF a, of demo_externals "[0]" "[0]" 1 None 3 "(0, [])"]
  note th1 = th[THEN conjunct1] and th2 = th[THEN conjunct2, THEN mp, OF n]
  from a n run th1 th2 show ?thesis by (intro conjI)
qed

text \<open>
  A list that names \<^verbatim>\<open>KMeans\<close> twice, run for one seed, leaves two records under
  \<^verbatim>\<open>KMeans\<close>, not one.
\<close>

theorem results_table_shape_counterexample:
  "set [''KMeans'', ''KMeans''] \<subseteq> set algorithm_names \<and>
   compare_algorithms demo_externals [0] [0] 1 None [''KMeans'', ''KMeans''] 1 (0, []) =
     (Inr [(''KMeans'', [[(''rand'', 0), (''nmi'', 1)], [(''rand'', 1), (''nmi'', 1)]])],
      (2, [''KMeans.fit'', ''KMeans.fit''])) \<and>
   length (dd_get [(''KMeans'', [[(''rand'', 0 :: int), (''nmi'', 1)], [(''rand'', 1), (''nmi'', 1)]])]
             ''KMeans'') \<noteq> nat 1"
proof -
  have a: "set [''KMeans'', ''KMeans''] \<subseteq> set algorithm_names"
    by (simp add: algorithm_names_def)
  have run: "compare_algorithms demo_externals [0] [0] 1 None [''KMeans'', ''KMeans''] 1 (0, []) =
     (Inr [(''KMeans'', [[(''rand'', 0), (''nmi'', 1)], [(''rand'', 1), (''nmi'', 1)]])],
      (2, [''KMeans.fit'', ''KMeans.fit'']))"
    by code_simp
  have n: "length (dd_get [(''KMeans'', [[(''rand'', 0 :: int), (''nmi'', 1)], [(''rand'', 1), (''nmi'', 1)]])]
             ''KMeans'') \<noteq> nat 1"
    by simp
  from a run n show ?thesis by (intro conjI)
qed

text \<open>
  Claim C4, as the code has it. The check of the identifier is the \<^verbatim>\<open>assert\<close> inside
  \<^verbatim>\<open>cluster\<close>: \<^verbatim>\<open>cluster\<close> on an identifier outside the four raises before any
  external call and leaves the state untouched. \<^verbatim>\<open>compare_algorithms\<close> does not check
  its list beforehand. With at least one seed, a list holding such an identifier always
  ends in an error and returns no table; the error comes in the first seed's iteration,
  after the calls for the identifiers that stand before the unrecognised one (an
  \<^verbatim>\<open>AssertionError\<close> if those calls succeed, their own error otherwise).
\<close>

theorem unrecognised_identifier_raises:
  assumes "a \<notin> set algorithm_names"
  shows "cluster ext a X y nc mfg s = (Inl AssertionError, s) \<and>
         (0 < N \<longrightarrow> a \<in> set algorithms \<longrightarrow>
            (\<exists>e s'. compare_algorithms ext X y nc mfg algorithms N s = (Inl e, s'))) \<and>
         (0 < N \<longrightarrow>
            compare_algorithms ext X y nc mfg (pre @ a # rest) N s =
              (case run_algorithms ext X y nc mfg pre [] (set_seed ext 0 s) of
                 (Inl e, s') \<Rightarrow> (Inl e, s')
               | (Inr t, s') \<Rightarrow> (Inl AssertionError, s')))"
proof (intro conjI impI)
  show "cluster ext a X y nc mfg s = (Inl AssertionError, s)"
    using assms by (rule cluster_unrecognised)
next
  assume n: "0 < N" and mem: "a \<in> set algorithms"
  from run_algorithms_raises[OF mem assms, of ext X y nc mfg "[]" "set_seed ext 0 s"]
  obtain e s' where "run_algorithms ext X y nc mfg algorithms [] (set_seed ext 0 s) = (Inl e, s')"
    by blast
  then have "compare_algorithms ext X y nc mfg algorithms N s = (Inl e, s')"
    by (simp add: compare_algorithms_first_seed[OF n])
  then show "\<exists>e s'. compare_algorithms ext X y nc mfg algorithms N s = (Inl e, s')"
    by blast
next
  assume n: "0 < N"
  show "compare_algorithms ext X y nc mfg (pre @ a # rest) N s =
              (case run_algorithms ext X y nc mfg pre [] (set_seed ext 0 s) of
                 (Inl e, s') \<Rightarrow> (Inl e, s')
               | (Inr t, s') \<Rightarrow> (Inl AssertionError, s'))"
    unfolding compare_algorithms_first_seed[OF n] run_algorithms_append
    by (simp add: run_algorithms_unrecognised[OF assms] del: run_algorithms.simps
          split: prod.splits sum.splits)
qed

theorem unrecognised_identifier_raises_witness:
  "''DBSCAN'' \<notin> set algorithm_names \<and>
   cluster demo_externals ''DBSCAN'' [0] [0] 1 None (0, []) = (Inl AssertionError, (0, [])) \<and>
   (\<exists>e s'. compare_algorithms demo_externals [0] [0] 1 None [''KMeans'', ''DBSCAN''] 1 (0, [])
              = (Inl e, s')) \<and>
   compare_algorithms demo_externals [0] [0] 1 None ([''KMeans''] @ ''DBSCAN'' # []) 1 (0, []) =
     (case run_algorithms demo_externals [0] [0] 1 None [''KMeans''] [] (set_seed demo_externals 0 (0, [])) of
        (Inl e, s') \<Rightarrow> (Inl e, s')
      | (Inr t, s') \<Rightarrow> (Inl AssertionError, s'))"
proof -
  have a: "''DBSCAN'' \<notin> set algorithm_names" by (simp add: algorithm_names_def)
  have n: "(0::int) < 1" by simp
  have m: "''DBSCAN'' \<in> set [''KMeans'', ''DBSCAN'']" by simp
  note th = unrecognised_identifier_raises[OF a, of demo_externals "[0]" "[0]" 1 None "(0, [])" 1
      "[''KMeans'', ''DBSCAN'']" "[''KMeans'']" "[]"]
  from th have c1: "cluster demo_externals ''DBSCAN'' [0] [0] 1 None (0, []) = (Inl AssertionError, (0, []))"
    by (rule conjunct1)
  from th[THEN conjunct2, THEN conjunct1, THEN mp, OF n, THEN mp, OF m]
  have c2: "\<exists>e s'. compare_algorithms demo_externals [0] [0] 1 None [''KMeans'', ''DBSCAN''] 1 (0, [])
              = (Inl e, s')" .
  note c3 = th[THEN conjunct2, THEN conjunct2, THEN mp, OF n]
  from a c1 c2 c3 show ?thesis by (intro conjI)
qed

text \<open>
  On the list \<^verbatim>\<open>["KMeans", "DBSCAN"]\<close> the log of the final state shows that
  \<^verbatim>\<open>KMeans.fit\<close> ran before the error; with no seed to run, the list \<^verbatim>\<open>["DBSCAN"]\<close>
  raises nothing and the empty table is returned.
\<close>

theorem unrecognised_identifier_raises_counterexample:
  "''DBSCAN'' \<notin> set algorithm_names \<and>
   compare_algorithms demo_externals [0] [0] 1 None [''KMeans'', ''DBSCAN''] 1 (0, []) =
     (Inl AssertionError, (1, [''KMeans.fit''])) \<and>
   compare_algorithms demo_externals [0] [0] 1 None [''DBSCAN''] 0 (0, []) = (Inr [], (0, []))"
proof -
  have a: "''DBSCAN'' \<notin> set algorithm_names" by (simp add: algorithm_names_def)
  have r1: "compare_algorithms demo_externals [0] [0] 1 None [''KMeans'', ''DBSCAN''] 1 (0, []) =
     (Inl AssertionError, (1, [''KMeans.fit'']))"
    by code_simp
  have r2: "compare_algorithms demo_externals [0] [0] 1 None [''DBSCAN''] 0 (0, []) = (Inr [], (0, []))"
    by code_simp
  from a r1 r2 show ?thesis by (intro conjI)
qed

text \<open>
  Claim C5, as the code has it. \<^verbatim>\<open>extract_features\<close> on a name outside
  \<^verbatim>\<open>identity\<close>, \<^verbatim>\<open>BERT\<close>, \<^verbatim>\<open>TFIDF\<close> raises at once the \<^verbatim>\<open>AssertionError\<close> of its bare
  \<^verbatim>\<open>assert\<close>, which carries no message; \<^verbatim>\<open>cluster\<close> on an identifier outside the four
  raises at once, before any external call, with the state untouched.
\<close>

theorem unsupported_value_raises:
  assumes "fe \<notin> set accepted_feature_extractors" and "a \<notin> set algorithm_names"
  shows "extract_features tfidf dataset fe = Inl AssertionError \<and>
         error_message AssertionError = [] \<and>
         (\<exists>e. cluster ext a X y nc mfg s = (Inl e, s))"
  using assms by (simp add: extract_features_def cluster_unrecognised)

theorem unsupported_value_raises_witness:
  "''word2vec'' \<notin> set accepted_feature_extractors \<and> ''DBSCAN'' \<notin> set algorithm_names \<and>
   extract_features (\<lambda>d. Inr d) [0 :: nat] ''word2vec'' = Inl AssertionError \<and>
   error_message AssertionError = [] \<and>
   (\<exists>e. cluster demo_externals ''DBSCAN'' [0] [0] 1 None (0, []) = (Inl e, (0, [])))"
proof -
  have f: "''word2vec'' \<notin> set accepted_feature_extractors"
    by (simp add: accepted_feature_extractors_def)
  have a: "''DBSCAN'' \<notin> set algorithm_names" by (simp add: algorithm_names_def)
  note th = unsupported_value_raises[OF f a, of "\<lambda>d. Inr d" "[0 :: nat]" demo_externals "[0]" "[0]" 1
      None "(0, [])"]
  note c1 = th[THEN conjunct1] and c2 = th[THEN conjunct2, THEN conjunct1]
    and c3 = th[THEN conjunct2, THEN conjunct2]
  from f a c1 c2 c3 show ?thesis by (intro conjI)
qed

text \<open>
  The error raised for the extractor name \<^verbatim>\<open>word2vec\<close> does not contain that name.
\<close>

theorem unsupported_value_raises_counterexample:
  "''word2vec'' \<notin> set accepted_feature_extractors \<and>
   extract_features (\<lambda>d. Inr d) [0 :: nat] ''word2vec'' = Inl AssertionError \<and>
   \<not> names_value AssertionError ''word2vec''"
  by (simp add: accepted_feature_extractors_def extract_features_def names_value_def)

text \<open>
  Claim C7. Two runs of \<^verbatim>\<open>cluster\<close> with \<^verbatim>\<open>"KMeans"\<close> on the same features, number of
  clusters and state, with any two label vectors, give the same result and the same final
  state: the run is the external fit on the features alone, and the labels are not passed
  to it.
\<close>

theorem kmeans_ignores_labels:
  "cluster ext ''KMeans'' X y nc mfg s = cluster ext ''KMeans'' X y' nc mfg s \<and>
   cluster ext ''KMeans'' X y nc mfg s = KMeans_fit ext nc X s"
  by (simp add: cluster_KMeans)

text \<open>
  Claim C9. \<^verbatim>\<open>extract_features\<close> with \<^verbatim>\<open>"BERT"\<close> raises \<^verbatim>\<open>NotImplementedError\<close> on every
  dataset, although \<^verbatim>\<open>"BERT"\<close> is in the list the function asserts and among the choices
  of the command-line flag.
\<close>

theorem bert_not_implemented:
  "extract_features tfidf dataset ''BERT'' = Inl NotImplementedError \<and>
   ''BERT'' \<in> set accepted_feature_extractors \<and>
   ''BERT'' \<in> set feature_extractor_choices"
  by (simp add: extract_features_def accepted_feature_extractors_def feature_extractor_choices_def)

end
